theory Spec2Isabelle
  imports Complex_Main "HOL-Library.AList"
begin

section \<open>Python strings and slices\<close>

text \<open>
  A Python \<^verbatim>\<open>str\<close> is a sequence of Unicode code points; a code point is modelled as a
  natural number, so that the ligature glyphs U+FB01 and U+FB02 of \<^verbatim>\<open>clean_text\<close> and the
  Unicode white space of \<^verbatim>\<open>\s\<close>, \<^verbatim>\<open>str.split()\<close> and \<^verbatim>\<open>str.strip()\<close> can be written down.
  \<open>ustr\<close> turns an ASCII literal into such a sequence.
\<close>

type_synonym ustring = "nat list"

definition ustr :: "string \<Rightarrow> ustring" where
  "ustr s = map of_char s"

text \<open>
  White space as CPython's \<^verbatim>\<open>Py_UNICODE_ISSPACE\<close> decides it; the regular-expression class
  \<^verbatim>\<open>\s\<close> on \<^verbatim>\<open>str\<close> patterns, \<^verbatim>\<open>str.split()\<close> and \<^verbatim>\<open>str.strip()\<close> all use this one predicate.
\<close>

definition is_space :: "nat \<Rightarrow> bool" where
  "is_space c \<longleftrightarrow>
     (9 \<le> c \<and> c \<le> 13) \<or> (28 \<le> c \<and> c \<le> 32) \<or> c = 133 \<or> c = 160 \<or> c = 5760 \<or>
     (8192 \<le> c \<and> c \<le> 8202) \<or> c = 8232 \<or> c = 8233 \<or> c = 8239 \<or> c = 8287 \<or> c = 12288"

text \<open>The character class \<^verbatim>\<open>[.!?]\<close>.\<close>

definition is_term :: "nat \<Rightarrow> bool" where
  "is_term c \<longleftrightarrow> c = 46 \<or> c = 33 \<or> c = 63"

text \<open>The character class \<^verbatim>\<open>[\x00-\x08\x0b-\x0c\x0e-\x1f\x7f-\x9f]\<close>.\<close>

definition is_control :: "nat \<Rightarrow> bool" where
  "is_control c \<longleftrightarrow> c \<le> 8 \<or> (11 \<le> c \<and> c \<le> 12) \<or> (14 \<le> c \<and> c \<le> 31) \<or> (127 \<le> c \<and> c \<le> 159)"

text \<open>\<^verbatim>\<open>xs[s:]\<close> for a Python int \<open>s\<close>: a negative start counts from the end, and the start is
  clipped to the list. In particular \<^verbatim>\<open>xs[-0:]\<close> is \<^verbatim>\<open>xs[0:]\<close>, the whole list.\<close>

definition py_slice_from :: "int \<Rightarrow> 'a list \<Rightarrow> 'a list" where
  "py_slice_from s xs =
     (let n = int (length xs);
          start = (if s < 0 then max (s + n) 0 else min s n)
      in drop (nat start) xs)"

text \<open>\<^verbatim>\<open>text.split()\<close>: the maximal runs of characters that are not white space.\<close>

function str_split :: "ustring \<Rightarrow> ustring list" where
  "str_split [] = []"
| "str_split (c # cs) =
     (if is_space c then str_split cs
      else (c # takeWhile (\<lambda>x. \<not> is_space x) cs) # str_split (dropWhile (\<lambda>x. \<not> is_space x) cs))"
  by pat_completeness auto
termination
  by (relation "measure length") (auto simp: le_imp_less_Suc length_dropWhile_le)

text \<open>\<^verbatim>\<open>" ".join(words)\<close>.\<close>

fun str_join :: "ustring list \<Rightarrow> ustring" where
  "str_join [] = []"
| "str_join [w] = w"
| "str_join (w # ws) = w @ 32 # str_join ws"

text \<open>\<^verbatim>\<open>text.strip()\<close>.\<close>

definition str_strip :: "ustring \<Rightarrow> ustring" where
  "str_strip s = rev (dropWhile is_space (rev (dropWhile is_space s)))"

text \<open>\<^verbatim>\<open>text.replace(c, new)\<close> for a one-character pattern \<open>c\<close>.\<close>

definition str_replace1 :: "nat \<Rightarrow> ustring \<Rightarrow> ustring \<Rightarrow> ustring" where
  "str_replace1 c new s = concat (map (\<lambda>x. if x = c then new else [x]) s)"

text \<open>\<^verbatim>\<open>re.sub(r'\s+', ' ', text)\<close>: every maximal run of white space becomes one space.\<close>

function collapse_ws :: "ustring \<Rightarrow> ustring" where
  "collapse_ws [] = []"
| "collapse_ws (c # cs) =
     (if is_space c then 32 # collapse_ws (dropWhile is_space cs) else c # collapse_ws cs)"
  by pat_completeness auto
termination
  by (relation "measure length") (auto simp: le_imp_less_Suc length_dropWhile_le)

text \<open>
  \<^verbatim>\<open>re.split(r'(?<=[.!?])\s+', text)\<close>: a separator is a maximal run of white space whose
  left neighbour is one of \<^verbatim>\<open>. ! ?\<close>; the pieces between the separators are returned, so the
  result is never empty and ends with the empty string when the text ends in a separator.
\<close>

function re_split_sentences :: "ustring \<Rightarrow> ustring list" where
  "re_split_sentences [] = [[]]"
| "re_split_sentences (c # cs) =
     (if is_term c \<and> cs \<noteq> [] \<and> is_space (hd cs)
      then [c] # re_split_sentences (dropWhile is_space cs)
      else (case re_split_sentences cs of
              [] \<Rightarrow> [[c]]
            | p # ps \<Rightarrow> (c # p) # ps))"
  by pat_completeness auto
termination
  by (relation "measure length") (auto simp: le_imp_less_Suc length_dropWhile_le)


section \<open>The chunker\<close>

definition clean_text :: "ustring \<Rightarrow> ustring" where
  "clean_text text =
     (let text1 = collapse_ws text;
          text2 = filter (\<lambda>c. \<not> is_control c) text1;
          text3 = str_replace1 64258 (ustr ''fl'') (str_replace1 64257 (ustr ''fi'') text2)
      in str_strip text3)"

text \<open>
  The body of the \<^verbatim>\<open>for sentence in sentences\<close> loop of \<^verbatim>\<open>split_text_intelligent\<close>, with the
  three loop variables \<open>chunks\<close>, \<open>current_chunk\<close> and \<open>current_size\<close> as arguments, and the
  final \<^verbatim>\<open>if current_chunk\<close> at the end of the sentences. \<open>chunk_size\<close> and \<open>overlap\<close> are
  Python ints.
\<close>

definition overlap_words :: "int \<Rightarrow> ustring list \<Rightarrow> ustring list" where
  "overlap_words overlap current_chunk =
     (if int (length current_chunk) > overlap then py_slice_from (- overlap) current_chunk
      else current_chunk)"

fun chunk_loop ::
  "int \<Rightarrow> int \<Rightarrow> ustring list \<Rightarrow> ustring list \<Rightarrow> ustring list \<Rightarrow> int \<Rightarrow> ustring list" where
  "chunk_loop chunk_size overlap [] chunks current_chunk current_size =
     (if current_chunk \<noteq> [] then chunks @ [str_join current_chunk] else chunks)"
| "chunk_loop chunk_size overlap (sentence # sentences) chunks current_chunk current_size =
     (let sentence_words = str_split sentence;
          sentence_size = int (length sentence_words)
      in if current_size + sentence_size > chunk_size \<and> current_chunk \<noteq> []
         then (let new_chunk = overlap_words overlap current_chunk @ sentence_words
               in chunk_loop chunk_size overlap sentences
                    (chunks @ [str_join current_chunk]) new_chunk (int (length new_chunk)))
         else chunk_loop chunk_size overlap sentences
                chunks (current_chunk @ sentence_words) (current_size + sentence_size))"

definition split_text_intelligent :: "ustring \<Rightarrow> int \<Rightarrow> int \<Rightarrow> ustring list" where
  "split_text_intelligent text chunk_size overlap =
     chunk_loop chunk_size overlap (re_split_sentences text) [] [] 0"


section \<open>Floating-point numbers\<close>

text \<open>
  A finite floating-point number is modelled by the real number it denotes, so that the
  comparisons of the code are the comparisons of the reals; the arithmetic operations
  round, and the rounding is part of the model. NaN, the infinities and overflow are not
  modelled.

  A Python \<^verbatim>\<open>float\<close> is an IEEE 754 binary64 number. \<open>round_double\<close> rounds a real to the
  nearest such number, ties to the even significand: 53 significant bits, and the fixed
  quantum \<open>2 ^ -1074\<close> below \<open>2 ^ -1022\<close>. \<open>binade n x\<close> is the exponent \<open>e\<close> with
  \<open>2 ^ e \<le> x < 2 ^ (e + 1)\<close>, found in at most \<open>n\<close> steps. The literal \<^verbatim>\<open>0.3\<close> denotes
  \<open>round_double (3 / 10)\<close>, and the difference of two Python floats is the rounded
  difference.
\<close>

definition round_half_even :: "real \<Rightarrow> int" where
  "round_half_even x =
     (let f = \<lfloor>x\<rfloor>; d = x - of_int f
      in if d < 1 / 2 then f else if 1 / 2 < d then f + 1 else if even f then f else f + 1)"

fun binade :: "nat \<Rightarrow> real \<Rightarrow> int" where
  "binade n x =
     (if n = 0 then 0
      else if x < 1 then binade (n - 1) (2 * x) - 1
      else if 2 \<le> x then binade (n - 1) (x / 2) + 1
      else 0)"

declare binade.simps [simp del]

definition round_double :: "real \<Rightarrow> real" where
  "round_double x =
     (if x = 0 then 0
      else (let e = binade 1100 \<bar>x\<bar>;
                q = max (e - 52) (- 1074);
                ulp = (if 0 \<le> q then 2 ^ nat q else 1 / 2 ^ nat (- q))
            in of_int (round_half_even (x / ulp)) * ulp))"


section \<open>The session store\<close>

text \<open>
  What the code takes from its libraries is a parameter of the model: the embedder
  \<^verbatim>\<open>model.encode\<close> and \<^verbatim>\<open>pickle.loads\<close>, either of which may raise (\<open>None\<close>),
  \<^verbatim>\<open>pickle.dumps\<close>, and numpy's \<^verbatim>\<open>np.dot\<close> and \<^verbatim>\<open>np.argsort\<close>. Vectors are values of a
  type \<open>'v\<close> that only these functions inspect. \<open>np_add\<close>, \<open>np_sub\<close> and \<open>np_mul\<close> are
  \<^verbatim>\<open>+\<close>, \<^verbatim>\<open>-\<close> and \<^verbatim>\<open>*\<close> where an operand is a numpy scalar: they round to the precision
  numpy chooses for the operands (that of the stored vectors' dtype, or binary64), which
  the model leaves open.
\<close>

record 'v lib =
  encode :: "ustring \<Rightarrow> 'v option"
  np_dot :: "'v \<Rightarrow> 'v \<Rightarrow> real"
  np_argsort :: "real list \<Rightarrow> nat list"
  np_add :: "real \<Rightarrow> real \<Rightarrow> real"
  np_sub :: "real \<Rightarrow> real \<Rightarrow> real"
  np_mul :: "real \<Rightarrow> real \<Rightarrow> real"
  pickle_dumps :: "'v \<Rightarrow> nat list"
  pickle_loads :: "nat list \<Rightarrow> 'v option"

datatype error = EmbeddingError | UnpicklingError | IndexError | KeyError | ValueError

record metadata =
  doc_id :: ustring
  doc_name :: ustring
  chunk_id :: int
  char_count :: nat

text \<open>
  The three module-level dictionaries. A Python dict keeps its keys in insertion order, so
  each is an association list: \<open>map_of\<close> looks a key up, \<open>AList.update\<close> assigns (in place
  for a key that is present, at the end for a new one), \<open>AList.delete\<close> is \<^verbatim>\<open>del\<close>.
\<close>

record 'v store =
  session_documents :: "(ustring \<times> ustring list) list"
  session_embeddings :: "(ustring \<times> 'v list) list"
  session_metadata :: "(ustring \<times> metadata list) list"

definition empty_store :: "'v store" where
  "empty_store = \<lparr>session_documents = [], session_embeddings = [], session_metadata = []\<rparr>"

text \<open>\<^verbatim>\<open>d[k].append(x)\<close>: \<open>None\<close> is the KeyError of \<^verbatim>\<open>d[k]\<close>.\<close>

definition dict_append :: "'k \<Rightarrow> 'a \<Rightarrow> ('k \<times> 'a list) list \<Rightarrow> ('k \<times> 'a list) list option" where
  "dict_append k x d =
     (case map_of d k of
        None \<Rightarrow> None
      | Some xs \<Rightarrow> Some (AList.update k (xs @ [x]) d))"

definition init_session :: "ustring \<Rightarrow> 'v store \<Rightarrow> 'v store" where
  "init_session session_id st =
     (if map_of (session_documents st) session_id = None
      then \<lparr>session_documents = AList.update session_id [] (session_documents st),
            session_embeddings = AList.update session_id [] (session_embeddings st),
            session_metadata = AList.update session_id [] (session_metadata st)\<rparr>
      else st)"

text \<open>
  The three appends of one loop iteration, in the order of the source. A store operation
  returns the store it leaves behind together with the exception it raised, if any: the
  dictionaries are module state, and what was appended before a raise stays appended.
\<close>

definition append_triple ::
  "ustring \<Rightarrow> ustring \<Rightarrow> 'v \<Rightarrow> metadata \<Rightarrow> 'v store \<Rightarrow> 'v store \<times> error option" where
  "append_triple session_id chunk emb meta st =
     (case dict_append session_id chunk (session_documents st) of
        None \<Rightarrow> (st, Some KeyError)
      | Some docs \<Rightarrow>
          (let st1 = st\<lparr>session_documents := docs\<rparr>
           in case dict_append session_id emb (session_embeddings st1) of
                None \<Rightarrow> (st1, Some KeyError)
              | Some embs \<Rightarrow>
                  (let st2 = st1\<lparr>session_embeddings := embs\<rparr>
                   in case dict_append session_id meta (session_metadata st2) of
                        None \<Rightarrow> (st2, Some KeyError)
                      | Some metas \<Rightarrow> (st2\<lparr>session_metadata := metas\<rparr>, None))))"

text \<open>The \<^verbatim>\<open>for idx, chunk in enumerate(chunks)\<close> loop of
  \<^verbatim>\<open>process_document_text_with_storage\<close>: the embedding is computed before the appends.\<close>

fun store_chunks ::
  "'v lib \<Rightarrow> ustring \<Rightarrow> ustring \<Rightarrow> ustring \<Rightarrow> nat \<Rightarrow> ustring list \<Rightarrow> 'v store
     \<Rightarrow> 'v store \<times> error option" where
  "store_chunks lib session_id did dname idx [] st = (st, None)"
| "store_chunks lib session_id did dname idx (chunk # chunks) st =
     (case encode lib chunk of
        None \<Rightarrow> (st, Some EmbeddingError)
      | Some emb \<Rightarrow>
          (case append_triple session_id chunk emb
                  \<lparr>doc_id = did, doc_name = dname, chunk_id = int idx,
                   char_count = length chunk\<rparr> st of
             (st', Some e) \<Rightarrow> (st', Some e)
           | (st', None) \<Rightarrow> store_chunks lib session_id did dname (Suc idx) chunks st'))"

definition process_document_text_with_storage ::
  "'v lib \<Rightarrow> ustring \<Rightarrow> ustring \<Rightarrow> ustring \<Rightarrow> ustring \<Rightarrow> 'v store \<Rightarrow> 'v store \<times> error option" where
  "process_document_text_with_storage lib text did session_id dname st =
     store_chunks lib session_id did dname 0
       (split_text_intelligent (clean_text text) 500 100) (init_session session_id st)"

text \<open>A \<^verbatim>\<open>DocumentEmbedding\<close> row as \<^verbatim>\<open>load_session_from_database\<close> reads it;
  \<open>document_id\<close> is \<^verbatim>\<open>str(emb_obj.document.id)\<close>.\<close>

record emb_obj =
  chunk_text :: ustring
  embedding_vector :: "nat list"
  document_id :: ustring
  original_filename :: ustring
  chunk_index :: int

definition serialize_embedding :: "'v lib \<Rightarrow> 'v \<Rightarrow> nat list" where
  "serialize_embedding lib embedding = pickle_dumps lib embedding"

definition deserialize_embedding :: "'v lib \<Rightarrow> nat list \<Rightarrow> 'v option" where
  "deserialize_embedding lib embedding_bytes = pickle_loads lib embedding_bytes"

text \<open>The \<^verbatim>\<open>for emb_obj in document_embeddings\<close> loop of \<^verbatim>\<open>load_session_from_database\<close>:
  the chunk text is appended before the vector is deserialized.\<close>

fun load_objects :: "'v lib \<Rightarrow> ustring \<Rightarrow> emb_obj list \<Rightarrow> 'v store \<Rightarrow> 'v store \<times> error option" where
  "load_objects lib session_id [] st = (st, None)"
| "load_objects lib session_id (obj # objs) st =
     (case dict_append session_id (chunk_text obj) (session_documents st) of
        None \<Rightarrow> (st, Some KeyError)
      | Some docs \<Rightarrow>
          (let st1 = st\<lparr>session_documents := docs\<rparr>
           in case deserialize_embedding lib (embedding_vector obj) of
                None \<Rightarrow> (st1, Some UnpicklingError)
              | Some embedding \<Rightarrow>
                  (case dict_append session_id embedding (session_embeddings st1) of
                     None \<Rightarrow> (st1, Some KeyError)
                   | Some embs \<Rightarrow>
                       (let st2 = st1\<lparr>session_embeddings := embs\<rparr>
                        in case dict_append session_id
                                  \<lparr>doc_id = document_id obj, doc_name = original_filename obj,
                                   chunk_id = chunk_index obj,
                                   char_count = length (chunk_text obj)\<rparr>
                                  (session_metadata st2) of
                             None \<Rightarrow> (st2, Some KeyError)
                           | Some metas \<Rightarrow>
                               load_objects lib session_id objs
                                 (st2\<lparr>session_metadata := metas\<rparr>)))))"

definition load_session_from_database ::
  "'v lib \<Rightarrow> ustring \<Rightarrow> emb_obj list \<Rightarrow> 'v store \<Rightarrow> 'v store \<times> error option" where
  "load_session_from_database lib session_id document_embeddings st =
     load_objects lib session_id document_embeddings (init_session session_id st)"

definition clear_session_documents :: "ustring \<Rightarrow> 'v store \<Rightarrow> 'v store" where
  "clear_session_documents session_id st =
     \<lparr>session_documents =
        (if map_of (session_documents st) session_id \<noteq> None
         then AList.delete session_id (session_documents st) else session_documents st),
      session_embeddings =
        (if map_of (session_embeddings st) session_id \<noteq> None
         then AList.delete session_id (session_embeddings st) else session_embeddings st),
      session_metadata =
        (if map_of (session_metadata st) session_id \<noteq> None
         then AList.delete session_id (session_metadata st) else session_metadata st)\<rparr>"

definition clear_document_store :: "'v store \<Rightarrow> 'v store" where
  "clear_document_store st = \<lparr>session_documents = [], session_embeddings = [], session_metadata = []\<rparr>"

text \<open>The two dictionaries \<^verbatim>\<open>get_session_stats\<close> can return. \<^verbatim>\<open>if session_id:\<close> tests
  truthiness: \<^verbatim>\<open>None\<close> and the empty string both take the all-sessions branch.\<close>

datatype stats =
  SessionStats (stats_session_id: ustring) (total_chunks: nat) (unique_documents: nat)
| AllStats (total_sessions: nat) (total_chunks: nat) (sessions: "ustring list")

definition all_stats :: "'v store \<Rightarrow> stats" where
  "all_stats st =
     AllStats (length (session_documents st))
       (sum_list (map (\<lambda>(k, chunks). length chunks) (session_documents st)))
       (map fst (session_documents st))"

definition get_session_stats :: "'v store \<Rightarrow> ustring option \<Rightarrow> error + stats" where
  "get_session_stats st session_id =
     (case session_id of
        None \<Rightarrow> Inr (all_stats st)
      | Some sid \<Rightarrow>
          if sid \<noteq> [] then
            (case map_of (session_documents st) sid of
               None \<Rightarrow> Inr (SessionStats sid 0 0)
             | Some chunks \<Rightarrow>
                 (case map_of (session_metadata st) sid of
                    None \<Rightarrow> Inl KeyError
                  | Some metas \<Rightarrow>
                      Inr (SessionStats sid (length chunks) (card (set (map doc_id metas))))))
          else Inr (all_stats st))"


section \<open>Retrieval\<close>

definition sentinel :: ustring where
  "sentinel = ustr ''No document uploaded yet.''"

definition default_session :: ustring where
  "default_session = ustr ''default''"

text \<open>
  The score of one candidate in the inner loop of \<^verbatim>\<open>rerank_with_diversity\<close>:
  \<^verbatim>\<open>similarities[idx]\<close>, then the minimum over the selected chunks of one minus the dot
  product, then the weighted sum. An index out of range is an IndexError and the minimum
  of an empty list a ValueError. \<^verbatim>\<open>1 - diversity_weight\<close> is a difference of Python
  floats; the other four operations have a numpy scalar as operand.
\<close>

definition combined_score ::
  "'v lib \<Rightarrow> real list \<Rightarrow> 'v list \<Rightarrow> real \<Rightarrow> nat list \<Rightarrow> nat \<Rightarrow> error + real" where
  "combined_score lib similarities embeddings diversity_weight selected idx =
     (if \<not> idx < length similarities then Inl IndexError
      else (let relevance = similarities ! idx
            in if selected = [] then Inl ValueError
               else if \<not> (idx < length embeddings \<and>
                           list_all (\<lambda>sel_idx. sel_idx < length embeddings) selected)
               then Inl IndexError
               else (let diversity =
                           min_list (map (\<lambda>sel_idx. np_sub lib 1 (np_dot lib (embeddings ! idx)
                                                                         (embeddings ! sel_idx)))
                                       selected)
                     in Inr (np_add lib
                               (np_mul lib (round_double (1 - diversity_weight)) relevance)
                               (np_mul lib diversity_weight diversity)))))"

text \<open>
  The \<^verbatim>\<open>for idx in remaining\<close> loop. The pair of \<^verbatim>\<open>best_idx\<close> and \<^verbatim>\<open>best_score\<close> is \<open>None\<close>
  while they are \<^verbatim>\<open>None\<close> and minus infinity, which every real score exceeds.
\<close>

fun best_candidate ::
  "(nat \<Rightarrow> error + real) \<Rightarrow> nat list \<Rightarrow> (nat \<times> real) option \<Rightarrow> error + (nat \<times> real) option" where
  "best_candidate score [] best = Inr best"
| "best_candidate score (idx # remaining) best =
     (case score idx of
        Inl e \<Rightarrow> Inl e
      | Inr combined \<Rightarrow>
          best_candidate score remaining
            (if (case best of None \<Rightarrow> True | Some (best_idx, best_score) \<Rightarrow> combined > best_score)
             then Some (idx, combined) else best))"

text \<open>
  The \<^verbatim>\<open>while len(selected) < top_k and remaining\<close> loop. \<^verbatim>\<open>remaining.remove(best_idx)\<close>
  raises ValueError when \<^verbatim>\<open>best_idx\<close> is not in the list (as it would for \<^verbatim>\<open>None\<close>) and
  removes its first occurrence otherwise.
\<close>

function rerank_loop ::
  "(nat list \<Rightarrow> nat \<Rightarrow> error + real) \<Rightarrow> int \<Rightarrow> nat list \<Rightarrow> nat list \<Rightarrow> error + nat list" where
  "rerank_loop score top_k selected remaining =
     (if int (length selected) < top_k \<and> remaining \<noteq> [] then
        (case best_candidate (score selected) remaining None of
           Inl e \<Rightarrow> Inl e
         | Inr None \<Rightarrow> Inl ValueError
         | Inr (Some (best_idx, best_score)) \<Rightarrow>
             if best_idx \<in> set remaining
             then rerank_loop score top_k (selected @ [best_idx]) (remove1 best_idx remaining)
             else Inl ValueError)
      else Inr selected)"
  by pat_completeness auto
termination
  by (relation "measure (\<lambda>(score, top_k, selected, remaining). length remaining)")
     (auto simp: length_remove1 intro: diff_less length_pos_if_in_set)

definition rerank_with_diversity ::
  "'v lib \<Rightarrow> nat list \<Rightarrow> real list \<Rightarrow> 'v list \<Rightarrow> int \<Rightarrow> real \<Rightarrow> error + nat list" where
  "rerank_with_diversity lib candidate_indices similarities embeddings top_k diversity_weight =
     (if int (length candidate_indices) \<le> top_k then Inr candidate_indices
      else (case candidate_indices of
              [] \<Rightarrow> Inl IndexError
            | first # rest \<Rightarrow>
                rerank_loop (combined_score lib similarities embeddings diversity_weight)
                  top_k [first] rest))"

text \<open>\<^verbatim>\<open>[documents[i] for i in selected_indices]\<close>.\<close>

definition index_all :: "'a list \<Rightarrow> nat list \<Rightarrow> error + 'a list" where
  "index_all documents selected_indices =
     (if list_all (\<lambda>i. i < length documents) selected_indices
      then Inr (map (\<lambda>i. documents ! i) selected_indices)
      else Inl IndexError)"

text \<open>\<^verbatim>\<open>np.argsort(similarities)[-num_candidates:][::-1]\<close>.\<close>

definition top_indices :: "'v lib \<Rightarrow> real list \<Rightarrow> int \<Rightarrow> nat list" where
  "top_indices lib similarities top_k =
     (let num_candidates = min (top_k * 2) (int (length similarities))
      in rev (py_slice_from (- num_candidates) (np_argsort lib similarities)))"

text \<open>The indices \<^verbatim>\<open>retrieve_chunks\<close> selects for a non-empty list of stored vectors.\<close>

definition selected_indices ::
  "'v lib \<Rightarrow> 'v list \<Rightarrow> 'v \<Rightarrow> int \<Rightarrow> real \<Rightarrow> error + nat list" where
  "selected_indices lib embeddings query_emb top_k diversity_weight =
     (let similarities = map (\<lambda>emb. np_dot lib query_emb emb) embeddings
      in rerank_with_diversity lib (top_indices lib similarities top_k)
           similarities embeddings top_k diversity_weight)"

text \<open>\<^verbatim>\<open>if session_id is None: session_id = "default"\<close>.\<close>

definition session_key :: "ustring option \<Rightarrow> ustring" where
  "session_key session_id = (case session_id of None \<Rightarrow> default_session | Some s \<Rightarrow> s)"

definition retrieve_chunks ::
  "'v lib \<Rightarrow> 'v store \<Rightarrow> ustring \<Rightarrow> ustring option \<Rightarrow> int \<Rightarrow> error + ustring list" where
  "retrieve_chunks lib st query session_id top_k =
     (let sid = session_key session_id
      in case map_of (session_embeddings st) sid of
           None \<Rightarrow> Inr [sentinel]
         | Some embeddings \<Rightarrow>
             if embeddings = [] then Inr [sentinel]
             else (case encode lib query of
                     None \<Rightarrow> Inl EmbeddingError
                   | Some query_emb \<Rightarrow>
                       (case selected_indices lib embeddings query_emb top_k
                               (round_double (3 / 10)) of
                          Inl e \<Rightarrow> Inl e
                        | Inr selected \<Rightarrow>
                            (case map_of (session_documents st) sid of
                               None \<Rightarrow> Inl KeyError
                             | Some documents \<Rightarrow> index_all documents selected))))"


text \<open>\<^verbatim>\<open>retrieve_chunks\<close> as an operation on the module state: its body reads the
  dictionaries, assigns to none of them and appends to none of their lists, so the store
  after the call is the store before it.\<close>

definition retrieve_chunks_call ::
  "'v lib \<Rightarrow> ustring \<Rightarrow> ustring option \<Rightarrow> int \<Rightarrow> 'v store
     \<Rightarrow> (error + ustring list) \<times> 'v store" where
  "retrieve_chunks_call lib query session_id top_k st =
     (retrieve_chunks lib st query session_id top_k, st)"


section \<open>Notions of the specification\<close>

text \<open>A session is absent when none of the three dictionaries has its key, and empty when
  each of its three sequences is empty.\<close>

definition session_absent :: "'v store \<Rightarrow> ustring \<Rightarrow> bool" where
  "session_absent st sid \<longleftrightarrow>
     map_of (session_documents st) sid = None \<and> map_of (session_embeddings st) sid = None \<and>
     map_of (session_metadata st) sid = None"

definition session_empty :: "'v store \<Rightarrow> ustring \<Rightarrow> bool" where
  "session_empty st sid \<longleftrightarrow>
     map_of (session_documents st) sid = Some [] \<and> map_of (session_embeddings st) sid = Some [] \<and>
     map_of (session_metadata st) sid = Some []"

text \<open>The keys of a dictionary in order, each with the length of its sequence. The three
  dictionaries are consistent when these agree: the same keys, and for every key three
  sequences of one length.\<close>

definition shape :: "('k \<times> 'a list) list \<Rightarrow> ('k \<times> nat) list" where
  "shape d = map (\<lambda>(k, xs). (k, length xs)) d"

definition store_consistent :: "'v store \<Rightarrow> bool" where
  "store_consistent st \<longleftrightarrow>
     shape (session_documents st) = shape (session_embeddings st) \<and>
     shape (session_embeddings st) = shape (session_metadata st)"

text \<open>The operations that change the store, and a run of them. A run keeps the store an
  operation leaves behind, whether or not the operation raised.\<close>

datatype store_op =
  Ingest ustring ustring ustring ustring
| Rehydrate ustring "emb_obj list"
| Clear ustring
| ClearAll

fun apply_op :: "'v lib \<Rightarrow> 'v store \<Rightarrow> store_op \<Rightarrow> 'v store" where
  "apply_op lib st (Ingest text did session_id dname) =
     fst (process_document_text_with_storage lib text did session_id dname st)"
| "apply_op lib st (Rehydrate session_id objs) =
     fst (load_session_from_database lib session_id objs st)"
| "apply_op lib st (Clear session_id) = clear_session_documents session_id st"
| "apply_op lib st ClearAll = clear_document_store st"

definition run_ops :: "'v lib \<Rightarrow> store_op list \<Rightarrow> 'v store" where
  "run_ops lib ops = foldl (apply_op lib) empty_store ops"

text \<open>Every vector a rehydration of the run reads can be deserialized.\<close>

fun loadable :: "'v lib \<Rightarrow> store_op \<Rightarrow> bool" where
  "loadable lib (Rehydrate session_id objs) =
     list_all (\<lambda>obj. pickle_loads lib (embedding_vector obj) \<noteq> None) objs"
| "loadable lib other = True"


text \<open>What \<^verbatim>\<open>np.argsort\<close> promises of its result: the indices of the scores, each once, in
  an order that sorts the scores ascending. The order of equal scores is left open.\<close>

definition argsort_ok :: "real list \<Rightarrow> nat list \<Rightarrow> bool" where
  "argsort_ok scores order \<longleftrightarrow>
     length order = length scores \<and> distinct order \<and>
     list_all (\<lambda>i. i < length scores) order \<and> sorted (map (\<lambda>i. scores ! i) order)"

text \<open>A shortlist of the scores for \<open>top_k\<close>: \<open>min (2 * top_k) N\<close> distinct chunk indices,
  ordered descending by score, none of them scoring below a chunk left out.\<close>

definition is_shortlist :: "real list \<Rightarrow> int \<Rightarrow> nat list \<Rightarrow> bool" where
  "is_shortlist scores top_k sl \<longleftrightarrow>
     distinct sl \<and> list_all (\<lambda>i. i < length scores) sl \<and>
     int (length sl) = min (2 * top_k) (int (length scores)) \<and>
     sorted (rev (map (\<lambda>i. scores ! i) sl)) \<and>
     list_all (\<lambda>i. i \<in> set sl \<or> list_all (\<lambda>j. scores ! i \<le> scores ! j) sl)
       [0..<length scores]"

text \<open>The value the specification maximizes: \<open>(1 - \<lambda>) * relevance + \<lambda> * diversity\<close>,
  the relevance of a candidate being its similarity to the query and its diversity the
  least dissimilarity \<open>1 - similarity\<close> to a chunk selected so far. \<open>mmr_exact\<close> is this
  value in exact arithmetic; \<open>mmr_value\<close> is the value in floating-point arithmetic,
  every operation rounded.\<close>

definition mmr_exact :: "'v lib \<Rightarrow> 'v \<Rightarrow> 'v list \<Rightarrow> real \<Rightarrow> nat list \<Rightarrow> nat \<Rightarrow> real" where
  "mmr_exact lib query_emb embeddings weight selected c =
     (1 - weight) * np_dot lib query_emb (embeddings ! c) +
     weight * Min ((\<lambda>s. 1 - np_dot lib (embeddings ! c) (embeddings ! s)) ` set selected)"

definition mmr_value :: "'v lib \<Rightarrow> 'v \<Rightarrow> 'v list \<Rightarrow> real \<Rightarrow> nat list \<Rightarrow> nat \<Rightarrow> real" where
  "mmr_value lib query_emb embeddings weight selected c =
     np_add lib
       (np_mul lib (round_double (1 - weight)) (np_dot lib query_emb (embeddings ! c)))
       (np_mul lib weight
          (Min ((\<lambda>s. np_sub lib 1 (np_dot lib (embeddings ! c) (embeddings ! s)))
                  ` set selected)))"

text \<open>The candidate of greatest value, the earliest in the list among equals.\<close>

definition first_maximal :: "(nat \<Rightarrow> real) \<Rightarrow> nat list \<Rightarrow> nat" where
  "first_maximal f xs = hd (filter (\<lambda>x. list_all (\<lambda>y. f y \<le> f x) xs) xs)"

text \<open>Greedy selection: \<open>n\<close> more picks at most, each the first maximal candidate among
  those remaining, stopping early when none remains.\<close>

fun greedy_select ::
  "(nat list \<Rightarrow> nat \<Rightarrow> real) \<Rightarrow> nat \<Rightarrow> nat list \<Rightarrow> nat list \<Rightarrow> nat list" where
  "greedy_select v 0 selected remaining = selected"
| "greedy_select v (Suc n) selected remaining =
     (if remaining = [] then selected
      else (let b = first_maximal (v selected) remaining
            in greedy_select v n (selected @ [b]) (remove1 b remaining)))"

text \<open>The re-ranking of a shortlist as the specification words it: the shortlist as it
  is when it has at most \<open>top_k\<close> members, otherwise its first member followed by greedy
  picks from the others until \<open>top_k\<close> are selected.\<close>

definition mmr_rerank :: "(nat list \<Rightarrow> nat \<Rightarrow> real) \<Rightarrow> int \<Rightarrow> nat list \<Rightarrow> nat list" where
  "mmr_rerank v top_k sl =
     (if int (length sl) \<le> top_k then sl
      else greedy_select v (nat top_k - 1) [hd sl] (tl sl))"

text \<open>A word: a non-empty string without white space.\<close>

definition is_word :: "ustring \<Rightarrow> bool" where
  "is_word w \<longleftrightarrow> w \<noteq> [] \<and> (\<forall>x\<in>set w. \<not> is_space x)"

text \<open>The words a chunk sequence covers when each chunk after the first gives up its
  first \<open>min overlap n\<close> words, \<open>n\<close> being the number of words of the chunk before it.\<close>

definition coverage :: "int \<Rightarrow> ustring list \<Rightarrow> ustring list" where
  "coverage overlap cs =
     (case cs of
        [] \<Rightarrow> []
      | c # rest \<Rightarrow>
          str_split c @
          concat (map2 (\<lambda>prev cur. drop (nat (min overlap (int (length (str_split prev)))))
                                     (str_split cur)) cs rest))"


section \<open>A model of the pickle functions\<close>

text \<open>
  Modelled from the spec: \<^verbatim>\<open>pickle.dumps\<close> and \<^verbatim>\<open>pickle.loads\<close> on a numpy array, which
  are library functions and not code of the repository. The specification asks of the
  format that it carry the dimensionality and every component and that loading corrupt
  input fail. The model follows the documentation of the two libraries in outline. A
  one-dimensional array is its shape (the number of components), the item size of its
  dtype (4 bytes for \<^verbatim>\<open>float32\<close>) and its data buffer, the state that
  \<^verbatim>\<open>ndarray.__reduce__\<close> hands to pickle. The pickle is the \<^verbatim>\<open>PROTO\<close> opcode
  (\<^verbatim>\<open>0x80\<close>) with protocol 4, the shape in 8 bytes, the item size in one byte, the
  \<^verbatim>\<open>BINBYTES8\<close> opcode (\<^verbatim>\<open>0x8e\<close>) with the 8-byte length and the bytes of the buffer, and
  the \<^verbatim>\<open>STOP\<close> opcode (\<^verbatim>\<open>.\<close>); numbers are little-endian. The opcodes that name
  numpy's reconstruction function and the dtype object are left out. Loading anything
  else, or a buffer whose length is not item size times shape, raises (\<open>None\<close>).
\<close>

record ndarray =
  nd_shape :: nat
  nd_itemsize :: nat
  nd_data :: "nat list"

text \<open>An array as numpy holds it: the buffer has item size times shape bytes, and the
  sizes fit 64 bits.\<close>

definition ndarray_ok :: "ndarray \<Rightarrow> bool" where
  "ndarray_ok a \<longleftrightarrow>
     length (nd_data a) = nd_itemsize a * nd_shape a \<and>
     nd_shape a < 256 ^ 8 \<and> length (nd_data a) < 256 ^ 8"

fun le_bytes :: "nat \<Rightarrow> nat \<Rightarrow> nat list" where
  "le_bytes 0 x = []"
| "le_bytes (Suc n) x = x mod 256 # le_bytes n (x div 256)"

fun le_value :: "nat list \<Rightarrow> nat" where
  "le_value [] = 0"
| "le_value (b # bs) = b + 256 * le_value bs"

definition npy_dumps :: "ndarray \<Rightarrow> nat list" where
  "npy_dumps a =
     [128, 4] @ le_bytes 8 (nd_shape a) @ [nd_itemsize a] @ [142] @
     le_bytes 8 (length (nd_data a)) @ nd_data a @ [46]"

definition npy_loads :: "nat list \<Rightarrow> ndarray option" where
  "npy_loads bs =
     (if length bs < 21 then None
      else (let shape = le_value (take 8 (drop 2 bs));
                itemsize = bs ! 10;
                n = le_value (take 8 (drop 12 bs));
                payload = take n (drop 20 bs)
            in if take 2 bs = [128, 4] \<and> bs ! 11 = 142 \<and> length bs = 21 + n \<and>
                  bs ! (20 + n) = 46 \<and> n = itemsize * shape
               then Some \<lparr>nd_shape = shape, nd_itemsize = itemsize, nd_data = payload\<rparr>
               else None))"


section \<open>Concrete libraries and stores\<close>

text \<open>Vectors as lists of binary64 numbers, with the dot product accumulated from left to
  right and every operation rounded to binary64; an embedder that maps every text to one
  unit vector; a serializer that writes nothing and a deserializer that accepts no
  input.\<close>

definition dot_list :: "real list \<Rightarrow> real list \<Rightarrow> real" where
  "dot_list a b = foldl (\<lambda>acc (x, y). round_double (acc + round_double (x * y))) 0 (zip a b)"

definition lib_fixed :: "nat list \<Rightarrow> real list lib" where
  "lib_fixed order =
     \<lparr>encode = (\<lambda>text. Some [1, 0]), np_dot = dot_list, np_argsort = (\<lambda>scores. order),
      np_add = (\<lambda>x y. round_double (x + y)), np_sub = (\<lambda>x y. round_double (x - y)),
      np_mul = (\<lambda>x y. round_double (x * y)),
      pickle_dumps = (\<lambda>v. []), pickle_loads = (\<lambda>bytes. None)\<rparr>"

definition store_one :: "real list store" where
  "store_one =
     \<lparr>session_documents = [(ustr ''s1'', [ustr ''a.''])],
      session_embeddings = [(ustr ''s1'', [[1, 0]])],
      session_metadata =
        [(ustr ''s1'', [\<lparr>doc_id = ustr ''d1'', doc_name = ustr ''f.txt'', chunk_id = 0,
                         char_count = 2\<rparr>])]\<rparr>"

definition store_three :: "real list store" where
  "store_three =
     \<lparr>session_documents = [(ustr ''s1'', [ustr ''a.'', ustr ''b.'', ustr ''c.''])],
      session_embeddings = [(ustr ''s1'', [[0, 1], [1, 0], [1, 0]])],
      session_metadata =
        [(ustr ''s1'',
          [\<lparr>doc_id = ustr ''d1'', doc_name = ustr ''f.txt'', chunk_id = 0, char_count = 2\<rparr>,
           \<lparr>doc_id = ustr ''d1'', doc_name = ustr ''f.txt'', chunk_id = 1, char_count = 2\<rparr>,
           \<lparr>doc_id = ustr ''d1'', doc_name = ustr ''f.txt'', chunk_id = 2, char_count = 2\<rparr>])]\<rparr>"

text \<open>A session of three chunks whose vectors have the components \<open>1\<close>, \<open>3 / 8\<close>,
  \<open>1 / 2\<close> and \<open>0\<close>, and a library whose embedder returns the first unit vector.\<close>

definition store_round :: "real list store" where
  "store_round =
     \<lparr>session_documents = [(ustr ''s1'', [ustr ''a.'', ustr ''b.'', ustr ''c.''])],
      session_embeddings = [(ustr ''s1'', [[1, 1, 0], [3 / 8, 1 / 2, 0], [0, 0, 1]])],
      session_metadata =
        [(ustr ''s1'',
          [\<lparr>doc_id = ustr ''d1'', doc_name = ustr ''f.txt'', chunk_id = 0, char_count = 2\<rparr>,
           \<lparr>doc_id = ustr ''d1'', doc_name = ustr ''f.txt'', chunk_id = 1, char_count = 2\<rparr>,
           \<lparr>doc_id = ustr ''d1'', doc_name = ustr ''f.txt'', chunk_id = 2, char_count = 2\<rparr>])]\<rparr>"

definition lib_round :: "real list lib" where
  "lib_round = (lib_fixed [2, 1, 0])\<lparr>encode := (\<lambda>text. Some [1, 0, 0])\<rparr>"

text \<open>A library of which only the pickle functions are given, and an array of two
  \<^verbatim>\<open>float32\<close> components (\<open>1.0\<close> and \<open>0.0\<close>).\<close>

definition lib_pickle :: "ndarray lib" where
  "lib_pickle =
     \<lparr>encode = (\<lambda>text. None), np_dot = (\<lambda>a b. 0), np_argsort = (\<lambda>scores. []),
      np_add = (\<lambda>x y. round_double (x + y)), np_sub = (\<lambda>x y. round_double (x - y)),
      np_mul = (\<lambda>x y. round_double (x * y)),
      pickle_dumps = npy_dumps, pickle_loads = npy_loads\<rparr>"

definition array_two :: ndarray where
  "array_two = \<lparr>nd_shape = 2, nd_itemsize = 4, nd_data = [0, 0, 128, 63, 0, 0, 0, 0]\<rparr>"

definition obj_corrupt :: emb_obj where
  "obj_corrupt =
     \<lparr>chunk_text = ustr ''a.'', embedding_vector = [0], document_id = ustr ''d1'',
      original_filename = ustr ''f.txt'', chunk_index = 0\<rparr>"


section \<open>Retrieval from an absent or empty session\<close>

text \<open>
  C2. For every query and every \<open>top_k\<close>, retrieval from a session that is absent from
  the store, or that has no chunks, returns the one-element sequence holding the sentinel
  text: a normal return (\<open>Inr\<close>), not an exception, and not the empty sequence.
\<close>

theorem retrieve_chunks_sentinel:
  assumes "session_absent st (session_key session_id) \<or> session_empty st (session_key session_id)"
  shows "retrieve_chunks lib st query session_id top_k = Inr [sentinel]"
  using assms by (auto simp: retrieve_chunks_def session_absent_def session_empty_def)

theorem retrieve_chunks_sentinel_witness:
  "session_absent (empty_store :: real list store) (session_key (Some (ustr ''s1''))) \<and>
   retrieve_chunks (lib_fixed []) empty_store (ustr ''anything'') (Some (ustr ''s1'')) 5
     = Inr [sentinel]"
proof -
  have "session_absent (empty_store :: real list store) (session_key (Some (ustr ''s1'')))"
    by (simp add: session_absent_def empty_store_def)
  then show ?thesis
    using retrieve_chunks_sentinel [of empty_store "Some (ustr ''s1'')" "lib_fixed []"] by simp
qed


section \<open>Clearing a session\<close>

lemma clear_absent_id:
  "session_absent st s \<Longrightarrow> clear_session_documents s st = (st :: 'v store)"
  by (simp add: clear_session_documents_def session_absent_def)

lemma clear_lookup:
  "map_of (session_documents (clear_session_documents s st)) s = None"
  "map_of (session_embeddings (clear_session_documents s st)) s = None"
  "map_of (session_metadata (clear_session_documents s st)) s = None"
  by (simp_all add: clear_session_documents_def delete_conv')

text \<open>
  C7, as the code has it. For every session id \<open>s\<close> other than the empty string,
  \<open>clear_session_documents s\<close> leaves \<open>s\<close> in none of the three dictionaries; clearing again
  changes nothing, and clearing an absent session returns the store unchanged, without an
  exception; afterwards \<open>get_session_stats\<close> for \<open>s\<close> reports 0 chunks and 0 documents and
  \<open>retrieve_chunks\<close> for \<open>s\<close> returns the sentinel sequence.
\<close>

theorem clear_session_documents_correct:
  assumes "s \<noteq> []"
  shows "session_absent (clear_session_documents s st) s \<and>
         clear_session_documents s (clear_session_documents s st) = clear_session_documents s st \<and>
         (session_absent st s \<longrightarrow> clear_session_documents s st = st) \<and>
         get_session_stats (clear_session_documents s st) (Some s) = Inr (SessionStats s 0 0) \<and>
         retrieve_chunks lib (clear_session_documents s st) query (Some s) top_k = Inr [sentinel]"
proof -
  have a: "session_absent (clear_session_documents s st) s"
    by (simp add: session_absent_def clear_lookup)
  have b: "clear_session_documents s (clear_session_documents s st) = clear_session_documents s st"
    using clear_absent_id [OF a] .
  have c: "session_absent st s \<longrightarrow> clear_session_documents s st = st"
    by (simp add: clear_absent_id)
  have d: "get_session_stats (clear_session_documents s st) (Some s) = Inr (SessionStats s 0 0)"
    using assms by (simp add: get_session_stats_def clear_lookup)
  have e: "retrieve_chunks lib (clear_session_documents s st) query (Some s) top_k = Inr [sentinel]"
    by (simp add: retrieve_chunks_def session_key_def clear_lookup)
  from a b c d e show ?thesis by blast
qed

theorem clear_session_documents_correct_witness:
  "ustr ''s1'' \<noteq> [] \<and>
   session_absent (clear_session_documents (ustr ''s1'') store_one) (ustr ''s1'') \<and>
   get_session_stats (clear_session_documents (ustr ''s1'') store_one) (Some (ustr ''s1''))
     = Inr (SessionStats (ustr ''s1'') 0 0) \<and>
   retrieve_chunks (lib_fixed [0]) (clear_session_documents (ustr ''s1'') store_one)
     (ustr ''anything'') (Some (ustr ''s1'')) 5 = Inr [sentinel] \<and>
   session_absent (empty_store :: real list store) (ustr ''s1'') \<and>
   clear_session_documents (ustr ''s1'') (empty_store :: real list store) = empty_store"
proof -
  have h: "ustr ''s1'' \<noteq> []" by (simp add: ustr_def)
  have absent: "session_absent (empty_store :: real list store) (ustr ''s1'')"
    by (simp add: session_absent_def empty_store_def)
  show ?thesis
    using h absent
      clear_session_documents_correct [OF h, of store_one "lib_fixed [0]" "ustr ''anything''" 5]
      clear_session_documents_correct [OF h, of "empty_store :: real list store"]
    by simp
qed

text \<open>For the empty string as session id, \<open>get_session_stats\<close> takes the all-sessions
  branch: after clearing it, the statistics still count the chunk of session \<open>s1\<close>.\<close>

theorem stats_empty_id_counterexample:
  "get_session_stats (clear_session_documents [] store_one) (Some [])
     = Inr (AllStats 1 1 [ustr ''s1''])"
  by (simp add: get_session_stats_def clear_session_documents_def store_one_def all_stats_def
      ustr_def)


section \<open>Consistency of the three dictionaries\<close>

lemma map_of_shape: "map_of (shape d) k = map_option length (map_of d k)"
  by (induction d) (auto simp: shape_def)

lemma shape_lookup:
  assumes "shape d1 = shape d2" and "map_of d1 k = Some xs"
  shows "\<exists>ys. map_of d2 k = Some ys \<and> length ys = length xs"
proof -
  have "map_option length (map_of d2 k) = map_option length (map_of d1 k)"
    using assms(1) map_of_shape [of d1 k] map_of_shape [of d2 k] by simp
  with assms(2) show ?thesis by auto
qed

lemma shape_lookup_None:
  assumes "shape d1 = shape d2"
  shows "map_of d1 k = None \<longleftrightarrow> map_of d2 k = None"
proof -
  have "map_option length (map_of d2 k) = map_option length (map_of d1 k)"
    using assms map_of_shape [of d1 k] map_of_shape [of d2 k] by simp
  then show ?thesis by (cases "map_of d1 k"; cases "map_of d2 k") auto
qed

lemma shape_update:
  "shape (AList.update k v d) = AList.update k (length v) (shape d)"
  by (induction d) (auto simp: shape_def)

lemma shape_delete: "shape (AList.delete k d) = AList.delete k (shape d)"
  by (induction d) (auto simp: shape_def)

lemma consistent_init: "store_consistent st \<Longrightarrow> store_consistent (init_session sid st)"
  by (simp add: store_consistent_def init_session_def shape_update)

lemma consistent_append_triple:
  assumes "store_consistent st"
  shows "store_consistent (fst (append_triple sid c e m st))"
proof (cases "map_of (session_documents st) sid")
  case None
  then show ?thesis using assms by (simp add: append_triple_def dict_append_def)
next
  case (Some xs)
  from assms have s1: "shape (session_documents st) = shape (session_embeddings st)"
    and s2: "shape (session_embeddings st) = shape (session_metadata st)"
    by (simp_all add: store_consistent_def)
  from shape_lookup [OF s1 Some] obtain ys where
    ys: "map_of (session_embeddings st) sid = Some ys" "length ys = length xs" by blast
  from shape_lookup [OF s2 ys(1)] obtain zs where
    zs: "map_of (session_metadata st) sid = Some zs" "length zs = length ys" by blast
  show ?thesis
    using Some ys zs s1 s2
    by (simp add: append_triple_def dict_append_def store_consistent_def shape_update)
qed

lemma consistent_store_chunks:
  "store_consistent st \<Longrightarrow> store_consistent (fst (store_chunks lib sid did dname idx cs st))"
proof (induction cs arbitrary: st idx)
  case Nil
  then show ?case by simp
next
  case (Cons c cs)
  show ?case
  proof (cases "encode lib c")
    case None
    then show ?thesis using Cons.prems by simp
  next
    case (Some e)
    let ?m = "\<lparr>doc_id = did, doc_name = dname, chunk_id = int idx, char_count = length c\<rparr>"
    obtain st' r where r: "append_triple sid c e ?m st = (st', r)" by (cases "append_triple sid c e ?m st")
    have c': "store_consistent st'"
      using consistent_append_triple [OF Cons.prems, of sid c e ?m] r by simp
    show ?thesis
    proof (cases r)
      case None
      then show ?thesis using Some r Cons.IH [OF c'] by simp
    next
      case (Some err)
      then show ?thesis using \<open>encode lib c = Some e\<close> r c' by simp
    qed
  qed
qed

lemma consistent_process:
  "store_consistent st \<Longrightarrow>
   store_consistent (fst (process_document_text_with_storage lib text did sid dname st))"
  by (simp add: process_document_text_with_storage_def consistent_store_chunks consistent_init)

lemma consistent_load_objects:
  assumes "store_consistent st"
    and "list_all (\<lambda>obj. pickle_loads lib (embedding_vector obj) \<noteq> None) objs"
  shows "store_consistent (fst (load_objects lib sid objs st))"
  using assms
proof (induction objs arbitrary: st)
  case Nil
  then show ?case by simp
next
  case (Cons obj objs)
  from Cons.prems(2) obtain v where v: "pickle_loads lib (embedding_vector obj) = Some v"
    by auto
  from Cons.prems(2) have rest: "list_all (\<lambda>obj. pickle_loads lib (embedding_vector obj) \<noteq> None) objs"
    by simp
  show ?case
  proof (cases "map_of (session_documents st) sid")
    case None
    then show ?thesis using Cons.prems(1) by (simp add: dict_append_def)
  next
    case (Some xs)
    from Cons.prems(1) have s1: "shape (session_documents st) = shape (session_embeddings st)"
      and s2: "shape (session_embeddings st) = shape (session_metadata st)"
      by (simp_all add: store_consistent_def)
    from shape_lookup [OF s1 Some] obtain ys where
      ys: "map_of (session_embeddings st) sid = Some ys" "length ys = length xs" by blast
    from shape_lookup [OF s2 ys(1)] obtain zs where
      zs: "map_of (session_metadata st) sid = Some zs" "length zs = length ys" by blast
    let ?m = "\<lparr>doc_id = document_id obj, doc_name = original_filename obj,
               chunk_id = chunk_index obj, char_count = length (chunk_text obj)\<rparr>"
    let ?st' = "st\<lparr>session_documents := AList.update sid (xs @ [chunk_text obj]) (session_documents st),
                  session_embeddings := AList.update sid (ys @ [v]) (session_embeddings st),
                  session_metadata := AList.update sid (zs @ [?m]) (session_metadata st)\<rparr>"
    have c': "store_consistent ?st'"
      using s1 s2 ys zs by (simp add: store_consistent_def shape_update)
    have "load_objects lib sid (obj # objs) st = load_objects lib sid objs ?st'"
      using Some ys zs v by (simp add: dict_append_def deserialize_embedding_def)
    then show ?thesis using Cons.IH [OF c' rest] by simp
  qed
qed

lemma consistent_load:
  "store_consistent st \<Longrightarrow>
   list_all (\<lambda>obj. pickle_loads lib (embedding_vector obj) \<noteq> None) objs \<Longrightarrow>
   store_consistent (fst (load_session_from_database lib sid objs st))"
  by (simp add: load_session_from_database_def consistent_load_objects consistent_init)

lemma consistent_clear:
  assumes "store_consistent st"
  shows "store_consistent (clear_session_documents sid st)"
proof -
  from assms have s1: "shape (session_documents st) = shape (session_embeddings st)"
    and s2: "shape (session_embeddings st) = shape (session_metadata st)"
    by (simp_all add: store_consistent_def)
  show ?thesis
    using s1 s2 shape_lookup_None [OF s1, of sid] shape_lookup_None [OF s2, of sid]
    by (auto simp: clear_session_documents_def store_consistent_def shape_delete)
qed

lemma consistent_clear_all: "store_consistent (clear_document_store st)"
  by (simp add: clear_document_store_def store_consistent_def shape_def)

lemma consistent_apply_op:
  "store_consistent st \<Longrightarrow> loadable lib op \<Longrightarrow> store_consistent (apply_op lib st op)"
  by (cases op) (simp_all add: consistent_process consistent_load consistent_clear consistent_clear_all)

lemma consistent_foldl:
  "store_consistent st \<Longrightarrow> list_all (loadable lib) ops \<Longrightarrow>
   store_consistent (foldl (apply_op lib) st ops)"
  by (induction ops arbitrary: st) (simp_all add: consistent_apply_op)

lemma consistent_empty: "store_consistent empty_store"
  by (simp add: store_consistent_def empty_store_def shape_def)

lemma consistent_run_ops:
  "list_all (loadable lib) ops \<Longrightarrow> store_consistent (run_ops lib ops)"
  unfolding run_ops_def using consistent_empty by (rule consistent_foldl)

lemma store_consistent_session:
  assumes "store_consistent st"
  shows "map fst (session_documents st) = map fst (session_embeddings st) \<and>
         map fst (session_embeddings st) = map fst (session_metadata st) \<and>
         map_option length (map_of (session_documents st) sid)
           = map_option length (map_of (session_embeddings st) sid) \<and>
         map_option length (map_of (session_embeddings st) sid)
           = map_option length (map_of (session_metadata st) sid)"
proof -
  have k: "map fst (shape d) = map fst d" for d :: "(ustring \<times> 'x list) list"
    by (induction d) (auto simp: shape_def)
  from assms have s1: "shape (session_documents st) = shape (session_embeddings st)"
    and s2: "shape (session_embeddings st) = shape (session_metadata st)"
    by (simp_all add: store_consistent_def)
  show ?thesis
    using s1 s2 k [of "session_documents st"] k [of "session_embeddings st"]
      k [of "session_metadata st"] map_of_shape [of "session_documents st" sid]
      map_of_shape [of "session_embeddings st" sid] map_of_shape [of "session_metadata st" sid]
    by simp
qed

text \<open>
  C4. The three dictionaries stay consistent through ingestion (also when the embedder
  raises part-way), clearing, and rehydration of vectors that deserialize
  (\<open>consistent_run_ops\<close>). Rehydration appends the chunk text before it deserializes the
  vector, so a record whose vector does not deserialize leaves a text without a vector:
  from the empty store, loading one such record raises and leaves session \<open>s1\<close> with one
  text, no vector and no metadata.
\<close>

theorem load_session_from_database_partial_append:
  "load_session_from_database (lib_fixed []) (ustr ''s1'') [obj_corrupt] empty_store
     = (\<lparr>session_documents = [(ustr ''s1'', [ustr ''a.''])],
         session_embeddings = [(ustr ''s1'', [])],
         session_metadata = [(ustr ''s1'', [])]\<rparr>, Some UnpicklingError) \<and>
   \<not> store_consistent (run_ops (lib_fixed []) [Rehydrate (ustr ''s1'') [obj_corrupt]])"
  by (simp add: load_session_from_database_def init_session_def empty_store_def dict_append_def
      deserialize_embedding_def lib_fixed_def obj_corrupt_def run_ops_def store_consistent_def
      shape_def)


section \<open>The chunker: words and sentences\<close>

lemma str_split_skip_spaces: "str_split (dropWhile is_space cs) = str_split cs"
  by (induction cs) auto

lemma str_split_word_prefix:
  assumes "\<forall>x\<in>set u. \<not> is_space x" and "cs = [] \<or> is_space (hd cs)"
  shows "str_split (u @ cs) = (if u = [] then [] else [u]) @ str_split cs"
proof (cases u)
  case Nil
  then show ?thesis by simp
next
  case (Cons x u')
  have tw: "takeWhile (\<lambda>x. \<not> is_space x) (u' @ cs) = u'"
    using assms Cons by (cases cs) (auto simp: takeWhile_append2 takeWhile_eq_all_conv)
  have dw: "dropWhile (\<lambda>x. \<not> is_space x) (u' @ cs) = cs"
    using assms Cons by (cases cs) (auto simp: dropWhile_append2)
  show ?thesis using Cons assms tw dw by simp
qed

lemma re_split_sentences_nonempty: "re_split_sentences cs \<noteq> []"
  by (induction cs rule: re_split_sentences.induct) (auto split: list.splits)

lemma sentences_words_prefix:
  "\<forall>x\<in>set u. \<not> is_space x \<Longrightarrow>
   concat (map str_split (case re_split_sentences cs of [] \<Rightarrow> [u] | p # ps \<Rightarrow> (u @ p) # ps))
     = str_split (u @ cs)"
proof (induction cs arbitrary: u rule: re_split_sentences.induct)
  case 1
  then show ?case by simp
next
  case (2 c cs)
  show ?case
  proof (cases "is_term c \<and> cs \<noteq> [] \<and> is_space (hd cs)")
    case True
    then have nsp: "\<not> is_space c" by (auto simp: is_term_def is_space_def)
    have u': "\<forall>x\<in>set (u @ [c]). \<not> is_space x" using "2.prems" nsp by simp
    have ih: "concat (map str_split (re_split_sentences (dropWhile is_space cs)))
                = str_split (dropWhile is_space cs)"
      using "2.IH"(1) [OF True, of "[]"] re_split_sentences_nonempty [of "dropWhile is_space cs"]
      by (cases "re_split_sentences (dropWhile is_space cs)") simp_all
    have a: "str_split (u @ [c]) = [u @ [c]]"
      using str_split_word_prefix [OF u', of "[]"] by simp
    have b: "str_split ((u @ [c]) @ cs) = [u @ [c]] @ str_split cs"
      using str_split_word_prefix [OF u', of cs] True by simp
    have rs: "re_split_sentences (c # cs) = [c] # re_split_sentences (dropWhile is_space cs)"
      using True by simp
    show ?thesis unfolding rs using ih a b by (simp add: str_split_skip_spaces)
  next
    case False
    obtain p ps where pps: "re_split_sentences cs = p # ps"
      using re_split_sentences_nonempty [of cs] by (cases "re_split_sentences cs") auto
    have rs: "re_split_sentences (c # cs) = (c # p) # ps"
      using False pps by auto
    show ?thesis
    proof (cases "is_space c")
      case sp: True
      have ih: "str_split p @ concat (map str_split ps) = str_split cs"
        using "2.IH"(2) [OF False, of "[]"] pps by simp
      have a: "str_split (u @ c # p) = (if u = [] then [] else [u]) @ str_split p"
        using str_split_word_prefix [OF "2.prems", of "c # p"] sp by simp
      have b: "str_split (u @ c # cs) = (if u = [] then [] else [u]) @ str_split cs"
        using str_split_word_prefix [OF "2.prems", of "c # cs"] sp by simp
      show ?thesis unfolding rs using a b ih by simp
    next
      case nsp: False
      have u': "\<forall>x\<in>set (u @ [c]). \<not> is_space x" using "2.prems" nsp by simp
      show ?thesis unfolding rs using "2.IH"(2) [OF False u'] pps by simp
    qed
  qed
qed

lemma sentences_words: "concat (map str_split (re_split_sentences t)) = str_split t"
  using sentences_words_prefix [of "[]" t] re_split_sentences_nonempty [of t]
  by (cases "re_split_sentences t") simp_all

lemma chunk_loop_keeps_chunks:
  "chunks \<noteq> [] \<Longrightarrow> chunk_loop cs ov ss chunks cur sz \<noteq> []"
  by (induction ss arbitrary: chunks cur sz) (auto simp: Let_def)

lemma chunk_loop_empty_iff:
  "chunk_loop cs ov ss chunks cur sz = [] \<longleftrightarrow>
     chunks = [] \<and> cur = [] \<and> concat (map str_split ss) = []"
proof (induction ss arbitrary: chunks cur sz)
  case Nil
  then show ?case by simp
next
  case (Cons s ss)
  show ?case using Cons.IH by (auto simp: Let_def chunk_loop_keeps_chunks)
qed

text \<open>
  C6, as the code has it. The chunker checks nothing about its configuration: for every
  text, chunk size and overlap, also with the overlap at or above the chunk size, it
  returns a chunk sequence, and that sequence is empty exactly when the text has no word.
\<close>

theorem split_text_intelligent_total:
  "split_text_intelligent text chunk_size overlap = [] \<longleftrightarrow> str_split text = []"
  unfolding split_text_intelligent_def chunk_loop_empty_iff sentences_words by simp

text \<open>With chunk size 1 and overlap 1 the chunker returns two chunks.\<close>

theorem no_validation_counterexample:
  "(1::int) \<ge> 1 \<and> split_text_intelligent (ustr ''a. b.'') 1 1 = [ustr ''a.'', ustr ''a. b.'']"
  by (simp add: split_text_intelligent_def ustr_def is_space_def is_term_def overlap_words_def py_slice_from_def)

theorem split_text_intelligent_total_witness:
  "split_text_intelligent [] 1 1 = [] \<and>
   split_text_intelligent (ustr ''a. b.'') 1 1 \<noteq> [] \<and> str_split (ustr ''a. b.'') \<noteq> []"
proof -
  have "str_split (ustr ''a. b.'') \<noteq> []" by (simp add: ustr_def is_space_def)
  then show ?thesis
    using split_text_intelligent_total [of "[]" 1 1]
      split_text_intelligent_total [of "ustr ''a. b.''" 1 1]
    by simp
qed

text \<open>
  C3. With overlap 0, which is below every positive chunk size, the chunk that follows a
  closed chunk starts with all the words of the closed chunk, not with its last 0 words:
  \<^verbatim>\<open>current_chunk[-overlap:]\<close> is the whole list when \<open>overlap\<close> is 0.
\<close>

theorem zero_overlap_seeds_whole_chunk:
  "overlap_words 0 [ustr ''a.''] = [ustr ''a.''] \<and>
   split_text_intelligent (ustr ''a. b.'') 1 0 = [ustr ''a.'', ustr ''a. b.'']"
  by (simp add: split_text_intelligent_def ustr_def is_space_def is_term_def overlap_words_def
      py_slice_from_def)

text \<open>
  C5. With overlap 0 the chunks of \<^verbatim>\<open>"a. b."\<close> at chunk size 1 cover the words
  \<^verbatim>\<open>a. a. b.\<close>, which is not the word sequence \<^verbatim>\<open>a. b.\<close> of the text.
\<close>

theorem zero_overlap_coverage_duplicates:
  "coverage 0 (split_text_intelligent (ustr ''a. b.'') 1 0) = [ustr ''a.'', ustr ''a.'', ustr ''b.''] \<and>
   str_split (ustr ''a. b.'') = [ustr ''a.'', ustr ''b.'']"
  by (simp add: split_text_intelligent_def ustr_def is_space_def is_term_def overlap_words_def
      py_slice_from_def coverage_def)



section \<open>The chunker: an overlap of at least one word\<close>

text \<open>For an overlap of at least 1 the slice \<^verbatim>\<open>current_chunk[-overlap:]\<close> is the last
  \<open>overlap\<close> words, and the chunks cover the words of the text exactly, whatever the chunk
  size (\<open>overlap_words_last\<close>, \<open>split_text_intelligent_coverage\<close>).\<close>

lemma overlap_words_last:
  assumes "1 \<le> overlap"
  shows "overlap_words overlap cur = drop (length cur - nat overlap) cur"
proof (cases "int (length cur) > overlap")
  case True
  then have "nat (max (- overlap + int (length cur)) 0) = length cur - nat overlap"
    using assms by linarith
  then show ?thesis using True assms by (simp add: overlap_words_def py_slice_from_def)
next
  case False
  then have "length cur - nat overlap = 0" by linarith
  then show ?thesis using False by (simp add: overlap_words_def)
qed

lemma overlap_words_length:
  assumes "1 \<le> overlap"
  shows "length (overlap_words overlap cur) = min (nat overlap) (length cur)"
  unfolding overlap_words_last [OF assms] by simp

lemma overlap_words_subset: "set (overlap_words overlap cur) \<subseteq> set cur"
  by (auto simp: overlap_words_def py_slice_from_def Let_def dest: in_set_dropD)

lemma str_split_words:
  "w \<in> set (str_split s) \<Longrightarrow> w \<noteq> [] \<and> (\<forall>x\<in>set w. \<not> is_space x)"
proof (induction s rule: str_split.induct)
  case 1
  then show ?case by simp
next
  case (2 c cs)
  show ?case
  proof (cases "is_space c")
    case True
    then have e: "str_split (c # cs) = str_split cs" by simp
    from "2.prems" have "w \<in> set (str_split cs)" unfolding e .
    then show ?thesis by (rule "2.IH"(1) [OF True])
  next
    case False
    then have eq: "str_split (c # cs)
        = (c # takeWhile (\<lambda>x. \<not> is_space x) cs) # str_split (dropWhile (\<lambda>x. \<not> is_space x) cs)"
      by simp
    from "2.prems" have "w = c # takeWhile (\<lambda>x. \<not> is_space x) cs \<or>
        w \<in> set (str_split (dropWhile (\<lambda>x. \<not> is_space x) cs))"
      unfolding eq by (simp only: set_simps insert_iff)
    then show ?thesis
    proof
      assume w: "w = c # takeWhile (\<lambda>x. \<not> is_space x) cs"
      have "\<forall>x\<in>set (takeWhile (\<lambda>x. \<not> is_space x) cs). \<not> is_space x"
        by (blast dest: set_takeWhileD)
      then show ?thesis unfolding w using False by simp
    next
      assume "w \<in> set (str_split (dropWhile (\<lambda>x. \<not> is_space x) cs))"
      then show ?thesis by (rule "2.IH"(2) [OF False])
    qed
  qed
qed

lemma str_split_join:
  "\<forall>w\<in>set ws. w \<noteq> [] \<and> (\<forall>x\<in>set w. \<not> is_space x) \<Longrightarrow> str_split (str_join ws) = ws"
proof (induction ws rule: str_join.induct)
  case 1
  then show ?case by simp
next
  case (2 w)
  then show ?case using str_split_word_prefix [of w "[]"] by simp
next
  case (3 w v ws)
  then have w: "\<forall>x\<in>set w. \<not> is_space x" and ne: "w \<noteq> []" by simp_all
  have sp: "is_space 32" by (simp add: is_space_def)
  have "str_split (w @ 32 # str_join (v # ws)) = [w] @ str_split (32 # str_join (v # ws))"
    using str_split_word_prefix [OF w, of "32 # str_join (v # ws)"] ne sp by simp
  then show ?case using 3 sp by simp
qed

lemma map2_snoc:
  "map2 g (c0 # rest @ [c]) (rest @ [c]) = map2 g (c0 # rest) rest @ [g (last (c0 # rest)) c]"
  by (induction rest arbitrary: c0) simp_all

lemma coverage_snoc:
  assumes "cs \<noteq> []"
  shows "coverage overlap (cs @ [c])
           = coverage overlap cs @
             drop (nat (min overlap (int (length (str_split (last cs)))))) (str_split c)"
proof -
  from assms obtain c0 rest where cs: "cs = c0 # rest" by (cases cs) auto
  define g where
    "g = (\<lambda>prev cur. drop (nat (min overlap (int (length (str_split prev))))) (str_split cur))"
  have cov: "coverage overlap (x # xs) = str_split x @ concat (map2 g (x # xs) xs)" for x xs
    by (simp add: coverage_def g_def)
  have "coverage overlap ((c0 # rest) @ [c])
          = str_split c0 @ concat (map2 g (c0 # rest @ [c]) (rest @ [c]))"
    using cov [of c0 "rest @ [c]"] by simp
  also have "\<dots> = str_split c0 @ concat (map2 g (c0 # rest) rest) @ g (last (c0 # rest)) c"
    by (simp only: map2_snoc concat_append concat.simps append_Nil2)
  also have "\<dots> = coverage overlap (c0 # rest) @ g (last (c0 # rest)) c"
    using cov [of c0 rest] by simp
  finally show ?thesis unfolding cs g_def .
qed

lemma str_split_is_word: "w \<in> set (str_split s) \<Longrightarrow> is_word w"
  unfolding is_word_def by (rule str_split_words)

lemma str_split_join_words: "\<forall>w\<in>set ws. is_word w \<Longrightarrow> str_split (str_join ws) = ws"
  unfolding is_word_def by (rule str_split_join)

lemma coverage_single: "coverage overlap [c] = str_split c"
  by (simp add: coverage_def)

lemma coverage_extend:
  assumes cur: "\<forall>w\<in>set cur. is_word w" and sw: "\<forall>w\<in>set sw. is_word w"
    and inv: "chunks \<noteq> [] \<longrightarrow>
                cur \<noteq> [] \<and> min (nat overlap) (length (str_split (last chunks))) \<le> length cur"
    and ov: "0 \<le> overlap"
  shows "coverage overlap (if cur @ sw \<noteq> [] then chunks @ [str_join (cur @ sw)] else chunks)
           = coverage overlap (if cur \<noteq> [] then chunks @ [str_join cur] else chunks) @ sw"
proof (cases "chunks = []")
  case True
  have a: "str_split (str_join (cur @ sw)) = cur @ sw"
    using cur sw by (intro str_split_join_words) auto
  have b: "str_split (str_join cur) = cur" using cur by (rule str_split_join_words)
  show ?thesis using True a b by (auto simp: coverage_single coverage_def)
next
  case False
  with inv have ne: "cur \<noteq> []"
    and le: "min (nat overlap) (length (str_split (last chunks))) \<le> length cur" by simp_all
  have a: "str_split (str_join (cur @ sw)) = cur @ sw"
    using cur sw by (intro str_split_join_words) auto
  have b: "str_split (str_join cur) = cur" using cur by (rule str_split_join_words)
  have k: "nat (min overlap (int (length (str_split (last chunks)))))
             = min (nat overlap) (length (str_split (last chunks)))"
    using ov by linarith
  show ?thesis
    using ne le by (simp add: coverage_snoc [OF False] a b k)
qed

lemma coverage_close:
  assumes cur: "\<forall>w\<in>set cur. is_word w" and sw: "\<forall>w\<in>set sw. is_word w"
    and ov: "1 \<le> overlap"
  shows "coverage overlap ((chunks @ [str_join cur]) @ [str_join (overlap_words overlap cur @ sw)])
           = coverage overlap (chunks @ [str_join cur]) @ sw"
proof -
  have ow: "\<forall>w\<in>set (overlap_words overlap cur). is_word w"
    using cur overlap_words_subset [of overlap cur] by blast
  have a: "str_split (str_join (overlap_words overlap cur @ sw)) = overlap_words overlap cur @ sw"
    using ow sw by (intro str_split_join_words) auto
  have b: "str_split (str_join cur) = cur" using cur by (rule str_split_join_words)
  have k: "nat (min overlap (int (length cur))) = length (overlap_words overlap cur)"
    using ov overlap_words_length [OF ov, of cur] by linarith
  have ne: "chunks @ [str_join cur] \<noteq> []" by simp
  show ?thesis
    unfolding coverage_snoc [OF ne] by (simp add: a b k)
qed

lemma chunk_loop_coverage:
  assumes ov: "1 \<le> overlap"
    and cur: "\<forall>w\<in>set cur. is_word w"
    and inv: "chunks \<noteq> [] \<longrightarrow>
                cur \<noteq> [] \<and> min (nat overlap) (length (str_split (last chunks))) \<le> length cur"
  shows "coverage overlap (chunk_loop chunk_size overlap ss chunks cur sz)
           = coverage overlap (if cur \<noteq> [] then chunks @ [str_join cur] else chunks)
             @ concat (map str_split ss)"
  using cur inv
proof (induction ss arbitrary: chunks cur sz)
  case Nil
  then show ?case by simp
next
  case (Cons s ss)
  let ?sw = "str_split s"
  have sw: "\<forall>w\<in>set ?sw. is_word w" by (simp add: str_split_is_word)
  show ?case
  proof (cases "sz + int (length ?sw) > chunk_size \<and> cur \<noteq> []")
    case True
    let ?new = "overlap_words overlap cur @ ?sw"
    let ?chunks = "chunks @ [str_join cur]"
    have step: "chunk_loop chunk_size overlap (s # ss) chunks cur sz
                  = chunk_loop chunk_size overlap ss ?chunks ?new (int (length ?new))"
      using True by (simp add: Let_def)
    have b: "str_split (str_join cur) = cur" using Cons.prems(1) by (rule str_split_join_words)
    have owl: "length (overlap_words overlap cur) = min (nat overlap) (length cur)"
      using overlap_words_length [OF ov] .
    have pos: "0 < min (nat overlap) (length cur)" using ov True by simp
    have "0 < length (overlap_words overlap cur)" unfolding owl by (rule pos)
    then have new_ne: "?new \<noteq> []" by simp
    have new_ok: "\<forall>w\<in>set ?new. is_word w"
      using Cons.prems(1) sw overlap_words_subset [of overlap cur] by auto
    have inv': "?chunks \<noteq> [] \<longrightarrow>
                  ?new \<noteq> [] \<and> min (nat overlap) (length (str_split (last ?chunks))) \<le> length ?new"
      using new_ne owl b by simp
    have "coverage overlap (chunk_loop chunk_size overlap ss ?chunks ?new (int (length ?new)))
            = coverage overlap (?chunks @ [str_join ?new]) @ concat (map str_split ss)"
      using Cons.IH [OF new_ok inv'] new_ne by simp
    also have "coverage overlap (?chunks @ [str_join ?new]) = coverage overlap ?chunks @ ?sw"
      using coverage_close [OF Cons.prems(1) sw ov] .
    finally show ?thesis unfolding step using True by simp
  next
    case False
    let ?cur = "cur @ ?sw"
    have step: "chunk_loop chunk_size overlap (s # ss) chunks cur sz
                  = chunk_loop chunk_size overlap ss chunks ?cur (sz + int (length ?sw))"
      using False by (auto simp: Let_def)
    have cur_ok: "\<forall>w\<in>set ?cur. is_word w" using Cons.prems(1) sw by auto
    have inv': "chunks \<noteq> [] \<longrightarrow>
                  ?cur \<noteq> [] \<and> min (nat overlap) (length (str_split (last chunks))) \<le> length ?cur"
      using Cons.prems(2) by auto
    have ov0: "0 \<le> overlap" using ov by simp
    have "coverage overlap (chunk_loop chunk_size overlap ss chunks ?cur (sz + int (length ?sw)))
            = coverage overlap (if ?cur \<noteq> [] then chunks @ [str_join ?cur] else chunks)
              @ concat (map str_split ss)"
      using Cons.IH [OF cur_ok inv'] .
    also have "coverage overlap (if ?cur \<noteq> [] then chunks @ [str_join ?cur] else chunks)
                 = coverage overlap (if cur \<noteq> [] then chunks @ [str_join cur] else chunks) @ ?sw"
      using coverage_extend [OF Cons.prems(1) sw Cons.prems(2) ov0] .
    finally show ?thesis unfolding step by simp
  qed
qed

lemma split_text_intelligent_coverage:
  assumes "1 \<le> overlap"
  shows "coverage overlap (split_text_intelligent t chunk_size overlap) = str_split t"
proof -
  have "coverage overlap (chunk_loop chunk_size overlap (re_split_sentences t) [] [] 0)
          = coverage overlap [] @ concat (map str_split (re_split_sentences t))"
    using chunk_loop_coverage [OF assms, of "[]" "[]" chunk_size "re_split_sentences t" 0] by simp
  then show ?thesis
    by (simp add: split_text_intelligent_def sentences_words coverage_def)
qed


section \<open>Re-ranking: the loops against greedy selection\<close>

lemma maximal_exists:
  "xs \<noteq> [] \<Longrightarrow> \<exists>x\<in>set xs. \<forall>y\<in>set xs. (f y :: real) \<le> f x"
proof (induction xs)
  case Nil
  then show ?case by simp
next
  case (Cons a xs)
  show ?case
  proof (cases "xs = []")
    case True
    then show ?thesis by simp
  next
    case False
    with Cons.IH obtain m where m: "m \<in> set xs" "\<forall>y\<in>set xs. f y \<le> f m" by blast
    show ?thesis
    proof (cases "f m \<le> f a")
      case True
      with m have "\<forall>y\<in>set (a # xs). f y \<le> f a" by auto
      then show ?thesis by auto
    next
      case False
      with m have "\<forall>y\<in>set (a # xs). f y \<le> f m" by auto
      with m(1) show ?thesis by auto
    qed
  qed
qed

lemma first_maximal_props:
  assumes "xs \<noteq> []"
  shows "first_maximal f xs \<in> set xs" and "\<forall>y\<in>set xs. f y \<le> f (first_maximal f xs)"
proof -
  let ?ms = "filter (\<lambda>x. list_all (\<lambda>y. f y \<le> f x) xs) xs"
  from maximal_exists [OF assms, of f] have "?ms \<noteq> []"
    by (auto simp: filter_empty_conv list_all_iff)
  then have "hd ?ms \<in> set ?ms" by (rule hd_in_set)
  then have "hd ?ms \<in> set xs \<and> (\<forall>y\<in>set xs. f y \<le> f (hd ?ms))"
    unfolding set_filter list_all_iff by blast
  then show "first_maximal f xs \<in> set xs" and "\<forall>y\<in>set xs. f y \<le> f (first_maximal f xs)"
    unfolding first_maximal_def by blast+
qed

lemma first_maximal_single: "first_maximal f [b] = b"
  by (simp add: first_maximal_def)

lemma first_maximal_skip_head:
  assumes "f b < f x"
  shows "first_maximal f (b # x # xs) = first_maximal f (x # xs)"
proof -
  have "filter (\<lambda>y. list_all (\<lambda>z. f z \<le> f y) (b # x # xs)) (x # xs)
          = filter (\<lambda>y. list_all (\<lambda>z. f z \<le> f y) (x # xs)) (x # xs)"
    using assms by (intro filter_cong) (auto simp: list_all_iff)
  then show ?thesis using assms by (simp add: first_maximal_def)
qed

lemma first_maximal_skip_second:
  assumes "f x \<le> f b"
  shows "first_maximal f (b # x # xs) = first_maximal f (b # xs)"
proof (cases "list_all (\<lambda>z. f z \<le> f b) xs")
  case True
  then show ?thesis using assms by (simp add: first_maximal_def)
next
  case False
  then obtain z where z: "z \<in> set xs" "f b < f z" by (auto simp: list_all_iff not_le)
  define P1 where "P1 = (\<lambda>y. list_all (\<lambda>z. f z \<le> f y) (b # x # xs))"
  define P2 where "P2 = (\<lambda>y. list_all (\<lambda>z. f z \<le> f y) (b # xs))"
  have "\<not> f z \<le> f x" "\<not> f z \<le> f b" using z assms by linarith+
  with z(1) have nb1: "\<not> P1 b" and nx: "\<not> P1 x" and nb2: "\<not> P2 b"
    unfolding P1_def P2_def list_all_iff by auto
  have eq: "filter P1 xs = filter P2 xs"
    unfolding P1_def P2_def using assms by (intro filter_cong) (auto simp: list_all_iff)
  have "filter P1 (b # x # xs) = filter P2 (b # xs)"
    using nb1 nx nb2 eq by simp
  then show ?thesis unfolding first_maximal_def P1_def P2_def by simp
qed

lemma best_candidate_pure:
  assumes "\<forall>idx\<in>set xs. score idx = Inr (f idx)"
  shows "best_candidate score xs (Some (b, f b))
           = Inr (Some (first_maximal f (b # xs), f (first_maximal f (b # xs))))"
  using assms
proof (induction xs arbitrary: b)
  case Nil
  then show ?case by (simp add: first_maximal_single)
next
  case (Cons x xs)
  then have sx: "score x = Inr (f x)" and rest: "\<forall>idx\<in>set xs. score idx = Inr (f idx)"
    by simp_all
  show ?case
  proof (cases "f x > f b")
    case True
    then show ?thesis
      using sx Cons.IH [OF rest, of x] by (simp add: first_maximal_skip_head)
  next
    case False
    then have "f x \<le> f b" by simp
    then show ?thesis
      using sx False Cons.IH [OF rest, of b] by (simp add: first_maximal_skip_second)
  qed
qed

lemma best_candidate_first_maximal:
  assumes "\<forall>idx\<in>set xs. score idx = Inr (f idx)" and "xs \<noteq> []"
  shows "best_candidate score xs None
           = Inr (Some (first_maximal f xs, f (first_maximal f xs)))"
proof -
  from assms(2) obtain x xs' where xs: "xs = x # xs'" by (cases xs) auto
  with assms(1) have sx: "score x = Inr (f x)" and rest: "\<forall>idx\<in>set xs'. score idx = Inr (f idx)"
    by simp_all
  show ?thesis using xs sx best_candidate_pure [OF rest, of x] by simp
qed

lemma combined_score_pure:
  assumes "idx < length embeddings" and "selected \<noteq> []"
    and "\<forall>s\<in>set selected. s < length embeddings"
  shows "combined_score lib (map (np_dot lib q) embeddings) embeddings w selected idx
           = Inr (mmr_value lib q embeddings w selected idx)"
proof -
  let ?ds = "map (\<lambda>s. np_sub lib 1 (np_dot lib (embeddings ! idx) (embeddings ! s))) selected"
  have "?ds \<noteq> []" using assms(2) by simp
  then have "min_list ?ds = Min (set ?ds)" by (rule min_list_Min)
  then show ?thesis
    using assms by (simp add: combined_score_def mmr_value_def list_all_iff)
qed

lemma rerank_loop_greedy:
  assumes "selected \<noteq> []"
    and "\<forall>i\<in>set (selected @ remaining). i < length embeddings"
  shows "rerank_loop (combined_score lib (map (np_dot lib q) embeddings) embeddings w)
           top_k selected remaining
         = Inr (greedy_select (mmr_value lib q embeddings w)
                  (nat (top_k - int (length selected))) selected remaining)"
  using assms
proof (induction "length remaining" arbitrary: selected remaining)
  case 0
  then show ?case by (cases "nat (top_k - int (length selected))") simp_all
next
  case (Suc n)
  let ?score = "combined_score lib (map (np_dot lib q) embeddings) embeddings w"
  let ?v = "mmr_value lib q embeddings w"
  show ?case
  proof (cases "int (length selected) < top_k")
    case False
    then have "nat (top_k - int (length selected)) = 0" by simp
    then show ?thesis using False by simp
  next
    case True
    from Suc.hyps(2) have ne: "remaining \<noteq> []" by auto
    from True obtain m where m: "nat (top_k - int (length selected)) = Suc m"
      by (cases "nat (top_k - int (length selected))") auto
    then have m': "nat (top_k - int (length (selected @ [b]))) = m" for b
      by simp
    let ?b = "first_maximal (?v selected) remaining"
    have pure: "\<forall>idx\<in>set remaining. ?score selected idx = Inr (?v selected idx)"
      using Suc.prems by (auto intro!: combined_score_pure)
    have best: "best_candidate (?score selected) remaining None = Inr (Some (?b, ?v selected ?b))"
      using best_candidate_first_maximal [OF pure ne] .
    have mem: "?b \<in> set remaining" using first_maximal_props(1) [OF ne] .
    have len: "n = length (remove1 ?b remaining)"
      using mem Suc.hyps(2) by (simp add: length_remove1)
    have rng: "\<forall>i\<in>set ((selected @ [?b]) @ remove1 ?b remaining). i < length embeddings"
      using Suc.prems(2) mem by (auto dest: notin_set_remove1)
    have ih: "rerank_loop ?score top_k (selected @ [?b]) (remove1 ?b remaining)
                = Inr (greedy_select ?v m (selected @ [?b]) (remove1 ?b remaining))"
      using Suc.hyps(1) [OF len _ rng] m' [of ?b] by simp
    have "rerank_loop ?score top_k selected remaining
            = rerank_loop ?score top_k (selected @ [?b]) (remove1 ?b remaining)"
      using True ne best mem by (subst rerank_loop.simps) simp
    also have "\<dots> = Inr (greedy_select ?v (Suc m) selected remaining)"
      using ih ne by (simp add: Let_def)
    finally show ?thesis using m by simp
  qed
qed

lemma greedy_select_props:
  assumes "distinct (selected @ remaining)"
  shows "distinct (greedy_select v n selected remaining) \<and>
         set (greedy_select v n selected remaining) \<subseteq> set (selected @ remaining) \<and>
         length (greedy_select v n selected remaining) = length selected + min n (length remaining)"
  using assms
proof (induction n arbitrary: selected remaining)
  case 0
  then show ?case by simp
next
  case (Suc n)
  show ?case
  proof (cases "remaining = []")
    case True
    then show ?thesis using Suc.prems by simp
  next
    case False
    let ?b = "first_maximal (v selected) remaining"
    have mem: "?b \<in> set remaining" using first_maximal_props(1) [OF False] .
    have d: "distinct ((selected @ [?b]) @ remove1 ?b remaining)"
      using Suc.prems mem by (auto dest: notin_set_remove1)
    have s: "set ((selected @ [?b]) @ remove1 ?b remaining) = set (selected @ remaining)"
      using mem by (auto dest: notin_set_remove1)
    have l: "length (remove1 ?b remaining) = length remaining - 1"
      using mem by (simp add: length_remove1)
    have pos: "0 < length remaining" using False by simp
    have step: "greedy_select v (Suc n) selected remaining
                  = greedy_select v n (selected @ [?b]) (remove1 ?b remaining)"
      using False by (simp add: Let_def)
    have "length selected + 1 + min n (length remaining - 1)
            = length selected + min (Suc n) (length remaining)"
      using pos by linarith
    then show ?thesis
      unfolding step using Suc.IH [OF d] s l by simp
  qed
qed


section \<open>The shortlist\<close>

lemma argsort_set:
  assumes "argsort_ok scores order"
  shows "set order = {..<length scores}"
proof -
  from assms have l: "length order = length scores" and d: "distinct order"
    and b: "set order \<subseteq> {..<length scores}"
    by (auto simp: argsort_ok_def list_all_iff)
  have "card (set order) = card {..<length scores}"
    using d l by (simp add: distinct_card)
  with b show ?thesis by (simp add: card_subset_eq)
qed

lemma top_indices_drop:
  assumes l: "length (np_argsort lib scores) = length scores" and k: "1 \<le> top_k"
  shows "top_indices lib scores top_k
           = rev (drop (length scores - nat (min (top_k * 2) (int (length scores))))
                   (np_argsort lib scores))"
proof -
  define m where "m = min (top_k * 2) (int (length scores))"
  have ti: "top_indices lib scores top_k = rev (py_slice_from (- m) (np_argsort lib scores))"
    by (simp add: top_indices_def m_def)
  have m0: "0 \<le> m" and mN: "m \<le> int (length scores)" using k by (simp_all add: m_def)
  have "py_slice_from (- m) (np_argsort lib scores)
          = drop (length scores - nat m) (np_argsort lib scores)"
  proof (cases "m = 0")
    case True
    with k have "length scores = 0" unfolding m_def by linarith
    then show ?thesis using l by (simp add: py_slice_from_def)
  next
    case False
    with m0 have neg: "- m < 0" by simp
    have "nat (max (- m + int (length scores)) 0) = length scores - nat m"
      using m0 mN by linarith
    then show ?thesis using neg l by (simp add: py_slice_from_def)
  qed
  then show ?thesis unfolding ti m_def by simp
qed

lemma top_indices_shortlist:
  assumes ok: "argsort_ok scores (np_argsort lib scores)" and k: "1 \<le> top_k"
  shows "is_shortlist scores top_k (top_indices lib scores top_k)"
proof -
  let ?a = "np_argsort lib scores"
  let ?m = "nat (min (top_k * 2) (int (length scores)))"
  let ?d = "length scores - ?m"
  let ?f = "\<lambda>i. scores ! i"
  from ok have l: "length ?a = length scores" and dist: "distinct ?a"
    and srt: "sorted (map ?f ?a)"
    by (auto simp: argsort_ok_def)
  have ti: "top_indices lib scores top_k = rev (drop ?d ?a)"
    using top_indices_drop [OF l k] .
  have m_le: "?m \<le> length scores" by simp
  have c1: "distinct (rev (drop ?d ?a))" using dist by simp
  have c2: "list_all (\<lambda>i. i < length scores) (rev (drop ?d ?a))"
    using argsort_set [OF ok] by (auto simp: list_all_iff dest: in_set_dropD)
  have c3: "int (length (rev (drop ?d ?a))) = min (2 * top_k) (int (length scores))"
    using l k m_le by (simp add: mult.commute)
  have "sorted (drop ?d (map ?f ?a))" using srt by (rule sorted_wrt_drop)
  then have c4: "sorted (rev (map ?f (rev (drop ?d ?a))))"
    by (simp add: rev_map drop_map)
  have split: "sorted (map ?f (take ?d ?a) @ map ?f (drop ?d ?a))"
    using srt by (simp flip: map_append)
  have c5: "list_all (\<lambda>i. i \<in> set (rev (drop ?d ?a)) \<or>
                list_all (\<lambda>j. scores ! i \<le> scores ! j) (rev (drop ?d ?a))) [0..<length scores]"
  proof -
    have "scores ! i \<le> scores ! j"
      if "i < length scores" "i \<notin> set (drop ?d ?a)" "j \<in> set (drop ?d ?a)" for i j
    proof -
      from that(1) have "i \<in> set ?a" using argsort_set [OF ok] by simp
      then have "i \<in> set (take ?d ?a) \<union> set (drop ?d ?a)"
        by (simp flip: set_append)
      with that(2) have "i \<in> set (take ?d ?a)" by simp
      with that(3) split show ?thesis by (auto simp: sorted_append)
    qed
    then show ?thesis by (auto simp: list_all_iff)
  qed
  from c1 c2 c3 c4 c5 show ?thesis unfolding is_shortlist_def ti by blast
qed

lemma shortlist_head_max:
  assumes "is_shortlist scores top_k sl" and "sl \<noteq> []" and "i < length scores"
  shows "scores ! i \<le> scores ! hd sl"
proof -
  from assms(2) obtain h t where sl: "sl = h # t" by (cases sl) auto
  from assms(1) have srt: "sorted (rev (map (\<lambda>i. scores ! i) sl))"
    and out: "\<forall>i<length scores. i \<in> set sl \<or> (\<forall>j\<in>set sl. scores ! i \<le> scores ! j)"
    by (auto simp: is_shortlist_def list_all_iff)
  have inner: "\<forall>j\<in>set sl. scores ! j \<le> scores ! h"
    using srt sl by (auto simp: sorted_append)
  show ?thesis
  proof (cases "i \<in> set sl")
    case True
    then show ?thesis using inner sl by auto
  next
    case False
    with out assms(3) have "scores ! i \<le> scores ! h" using sl by auto
    then show ?thesis using sl by simp
  qed
qed

lemma selected_indices_mmr:
  assumes ok: "argsort_ok (map (np_dot lib q) embeddings)
                 (np_argsort lib (map (np_dot lib q) embeddings))"
    and k: "1 \<le> top_k" and ne: "embeddings \<noteq> []"
  shows "selected_indices lib embeddings q top_k w
           = Inr (mmr_rerank (mmr_value lib q embeddings w) top_k
                    (top_indices lib (map (np_dot lib q) embeddings) top_k))"
proof -
  let ?sims = "map (np_dot lib q) embeddings"
  let ?sl = "top_indices lib ?sims top_k"
  have sl: "is_shortlist ?sims top_k ?sl" using top_indices_shortlist [OF ok k] .
  then have rng: "\<forall>i\<in>set ?sl. i < length embeddings" and dist: "distinct ?sl"
    and len: "int (length ?sl) = min (2 * top_k) (int (length embeddings))"
    by (auto simp: is_shortlist_def list_all_iff)
  show ?thesis
  proof (cases "int (length ?sl) \<le> top_k")
    case True
    then show ?thesis
      by (simp add: selected_indices_def rerank_with_diversity_def mmr_rerank_def)
  next
    case False
    from len k ne have "?sl \<noteq> []" by (cases embeddings) auto
    then obtain h t where ht: "?sl = h # t" by (cases ?sl) auto
    have rng': "\<forall>i\<in>set ([h] @ t). i < length embeddings" using rng ht by simp
    have "rerank_loop (combined_score lib ?sims embeddings w) top_k [h] t
            = Inr (greedy_select (mmr_value lib q embeddings w) (nat (top_k - int (length [h]))) [h] t)"
      by (rule rerank_loop_greedy [OF _ rng']) simp
    moreover have "nat (top_k - int (length [h])) = nat top_k - 1" using k by simp
    ultimately show ?thesis
      using False ht
      by (simp add: selected_indices_def rerank_with_diversity_def mmr_rerank_def)
  qed
qed

lemma mmr_rerank_props:
  assumes sl: "is_shortlist scores top_k sl" and k: "1 \<le> top_k" and ne: "scores \<noteq> []"
  shows "distinct (mmr_rerank v top_k sl) \<and>
         (\<forall>i\<in>set (mmr_rerank v top_k sl). i < length scores) \<and>
         int (length (mmr_rerank v top_k sl)) = min top_k (int (length scores))"
proof -
  from sl have rng: "\<forall>i\<in>set sl. i < length scores" and dist: "distinct sl"
    and len: "int (length sl) = min (2 * top_k) (int (length scores))"
    by (auto simp: is_shortlist_def list_all_iff)
  show ?thesis
  proof (cases "int (length sl) \<le> top_k")
    case True
    with len k have "int (length sl) = min top_k (int (length scores))" by linarith
    then show ?thesis using True rng dist by (simp add: mmr_rerank_def)
  next
    case False
    from len k ne have "sl \<noteq> []" by (cases scores) auto
    then obtain h t where ht: "sl = h # t" by (cases sl) auto
    have d: "distinct ([h] @ t)" using dist ht by simp
    note p = greedy_select_props [OF d, of v "nat top_k - 1"]
    have "length [h] + min (nat top_k - 1) (length t) = nat top_k"
      using False ht k by simp
    moreover have "int (nat top_k) = min top_k (int (length scores))"
      using False len k by linarith
    ultimately show ?thesis
      using p rng ht False by (auto simp: mmr_rerank_def)
  qed
qed

lemma retrieve_chunks_mmr:
  assumes "map_of (session_embeddings st) (session_key session_id) = Some embeddings"
    and "map_of (session_documents st) (session_key session_id) = Some documents"
    and "length documents = length embeddings"
    and "embeddings \<noteq> []"
    and "1 \<le> top_k"
    and "encode lib query = Some q"
    and "argsort_ok (map (np_dot lib q) embeddings)
           (np_argsort lib (map (np_dot lib q) embeddings))"
  shows "retrieve_chunks lib st query session_id top_k
           = Inr (map (\<lambda>i. documents ! i)
                    (mmr_rerank (mmr_value lib q embeddings (round_double (3 / 10))) top_k
                       (top_indices lib (map (np_dot lib q) embeddings) top_k)))"
proof -
  let ?sims = "map (np_dot lib q) embeddings"
  let ?r = "mmr_rerank (mmr_value lib q embeddings (round_double (3 / 10))) top_k (top_indices lib ?sims top_k)"
  have sel: "selected_indices lib embeddings q top_k (round_double (3 / 10)) = Inr ?r"
    using selected_indices_mmr [OF assms(7) assms(5) assms(4)] .
  have sl: "is_shortlist ?sims top_k (top_indices lib ?sims top_k)"
    using top_indices_shortlist [OF assms(7) assms(5)] .
  have "?sims \<noteq> []" using assms(4) by simp
  from mmr_rerank_props [OF sl assms(5) this]
  have "\<forall>i\<in>set ?r. i < length documents" using assms(3) by simp
  then have "index_all documents ?r = Inr (map (\<lambda>i. documents ! i) ?r)"
    by (simp add: index_all_def list_all_iff)
  then show ?thesis
    using assms(1,2,4,6) sel by (simp add: retrieve_chunks_def)
qed



section \<open>The floating-point values of the examples\<close>

lemmas fl_eval = round_double_def binade.simps round_half_even_def Let_def

lemma round_double_0: "round_double 0 = 0"
  by (simp add: round_double_def)

lemma round_double_1: "round_double 1 = 1"
  by (simp add: fl_eval)

lemma round_double_weight: "round_double (3 / 10) = 5404319552844595 / 18014398509481984"
  by (simp add: fl_eval)

lemma round_double_one_minus_weight:
  "round_double (1 - 5404319552844595 / 18014398509481984) = 6305039478318694 / 9007199254740992"
  by (simp add: fl_eval)

lemma round_double_exact:
  "round_double (3 / 8) = 3 / 8" "round_double (1 / 2) = 1 / 2" "round_double (7 / 8) = 7 / 8"
  "round_double (1 / 8) = 1 / 8"
  "round_double (6305039478318694 / 9007199254740992) = 6305039478318694 / 9007199254740992"
  "round_double (5404319552844595 / 18014398509481984) = 5404319552844595 / 18014398509481984"
  by (simp_all add: fl_eval)

lemma round_double_products:
  "round_double (6305039478318694 / 9007199254740992 * (3 / 8))
     = 4728779608739020 / 18014398509481984"
  "round_double (5404319552844595 / 18014398509481984 * (1 / 8))
     = 5404319552844595 / 144115188075855872"
  "round_double (4728779608739020 / 18014398509481984 + 5404319552844595 / 144115188075855872)
     = 5404319552844594 / 18014398509481984"
  by (simp_all add: fl_eval)

lemma sims_three:
  "map (np_dot (lib_fixed order) [1, 0]) [[0, 1], [1, 0], [1, 0]] = [0, 1, 1]"
  by (simp add: lib_fixed_def dot_list_def round_double_0 round_double_1)

lemma sims_round:
  "map (np_dot lib_round [1, 0, 0]) [[1, 1, 0], [3 / 8, 1 / 2, 0], [0, 0, 1]] = [1, 3 / 8, 0]"
  by (simp add: lib_round_def lib_fixed_def dot_list_def round_double_0 round_double_1
      round_double_exact)

lemma values_three:
  "mmr_value (lib_fixed order) [1, 0] [[0, 1], [1, 0], [1, 0]] (round_double (3 / 10)) [2] (Suc 0)
     = 6305039478318694 / 9007199254740992"
  "mmr_value (lib_fixed order) [1, 0] [[0, 1], [1, 0], [1, 0]] (round_double (3 / 10)) [2] 0
     = 5404319552844595 / 18014398509481984"
  by (simp_all add: mmr_value_def lib_fixed_def dot_list_def fl_eval)

lemma values_round:
  "mmr_value lib_round [1, 0, 0] [[1, 1, 0], [3 / 8, 1 / 2, 0], [0, 0, 1]]
       (round_double (3 / 10)) [0] (Suc 0)
     = 5404319552844594 / 18014398509481984"
  "mmr_value lib_round [1, 0, 0] [[1, 1, 0], [3 / 8, 1 / 2, 0], [0, 0, 1]]
       (round_double (3 / 10)) [0] 2
     = 5404319552844595 / 18014398509481984"
  by (simp_all add: mmr_value_def lib_round_def lib_fixed_def dot_list_def fl_eval)

lemma exact_round:
  "mmr_exact lib_round [1, 0, 0] [[1, 1, 0], [3 / 8, 1 / 2, 0], [0, 0, 1]] (3 / 10) [0] (Suc 0)
     = 3 / 10"
  "mmr_exact lib_round [1, 0, 0] [[1, 1, 0], [3 / 8, 1 / 2, 0], [0, 0, 1]] (3 / 10) [0] 2
     = 3 / 10"
  by (simp_all add: mmr_exact_def lib_round_def lib_fixed_def dot_list_def fl_eval)


section \<open>Retrieval: what is returned\<close>

text \<open>
  C1, as the code has it. For a session holding \<open>N \<ge> 1\<close> chunks, every query and every
  \<open>top_k \<ge> 1\<close>, with the embedder returning the vector \<open>q\<close> for the query and \<^verbatim>\<open>np.argsort\<close>
  keeping its promise on the scores: \<open>retrieve_chunks\<close> scores every stored chunk by its
  dot product with \<open>q\<close>; its shortlist holds the \<open>min (2 * top_k) N\<close> highest-scoring chunks
  in descending order of score, so that its first member scores highest of all; and the
  texts returned are those of the specification's re-ranking of that shortlist, in
  selection order: the shortlist itself when it has at most \<open>top_k\<close> members, otherwise its
  first member followed by the greedy picks that maximize, among the remaining
  candidates, the floating-point value of \<open>(1 - 0.3) * relevance + 0.3 * diversity\<close>, every
  operation rounded as the code computes it, ties of that value going to the earlier
  shortlist rank, until \<open>top_k\<close> chunks are selected.
\<close>

theorem retrieve_chunks_refines_spec:
  assumes "map_of (session_embeddings st) (session_key session_id) = Some embeddings"
    and "map_of (session_documents st) (session_key session_id) = Some documents"
    and "length documents = length embeddings"
    and "embeddings \<noteq> []"
    and "1 \<le> top_k"
    and "encode lib query = Some q"
    and "argsort_ok (map (np_dot lib q) embeddings)
           (np_argsort lib (map (np_dot lib q) embeddings))"
  shows "is_shortlist (map (np_dot lib q) embeddings) top_k
           (top_indices lib (map (np_dot lib q) embeddings) top_k) \<and>
         (\<forall>i<length embeddings.
            map (np_dot lib q) embeddings ! i
              \<le> map (np_dot lib q) embeddings
                    ! hd (top_indices lib (map (np_dot lib q) embeddings) top_k)) \<and>
         retrieve_chunks lib st query session_id top_k
           = Inr (map (\<lambda>i. documents ! i)
                    (mmr_rerank (mmr_value lib q embeddings (round_double (3 / 10))) top_k
                       (top_indices lib (map (np_dot lib q) embeddings) top_k)))"
proof -
  let ?sims = "map (np_dot lib q) embeddings"
  have sl: "is_shortlist ?sims top_k (top_indices lib ?sims top_k)"
    using top_indices_shortlist [OF assms(7) assms(5)] .
  then have "int (length (top_indices lib ?sims top_k)) = min (2 * top_k) (int (length ?sims))"
    by (simp add: is_shortlist_def)
  with assms(4,5) have ne: "top_indices lib ?sims top_k \<noteq> []"
    by (cases embeddings) auto
  have hd_max: "\<forall>i<length embeddings. ?sims ! i \<le> ?sims ! hd (top_indices lib ?sims top_k)"
    using shortlist_head_max [OF sl ne] by simp
  from sl hd_max retrieve_chunks_mmr [OF assms] show ?thesis by blast
qed

theorem retrieve_chunks_refines_spec_witness:
  "argsort_ok [0, 1, 1] [0, 1, 2] \<and>
   retrieve_chunks (lib_fixed [0, 1, 2]) store_three (ustr ''q'') (Some (ustr ''s1'')) 2
     = Inr [ustr ''c.'', ustr ''b.'']"
proof -
  let ?lib = "lib_fixed [0, 1, 2]"
  let ?embs = "[[0, 1], [1, 0], [1, 0 :: real]]"
  let ?docs = "[ustr ''a.'', ustr ''b.'', ustr ''c.'']"
  have h1: "map_of (session_embeddings store_three) (session_key (Some (ustr ''s1''))) = Some ?embs"
    by (simp add: store_three_def session_key_def)
  have h2: "map_of (session_documents store_three) (session_key (Some (ustr ''s1''))) = Some ?docs"
    by (simp add: store_three_def session_key_def)
  have h3: "length ?docs = length ?embs" by simp
  have h4: "?embs \<noteq> []" by simp
  have h5: "(1::int) \<le> 2" by simp
  have h6: "encode ?lib (ustr ''q'') = Some [1, 0]" by (simp add: lib_fixed_def)
  have ok: "argsort_ok [0, 1, 1] [0, 1, 2]" by (simp add: argsort_ok_def)
  then have h7: "argsort_ok (map (np_dot ?lib [1, 0]) ?embs)
                   (np_argsort ?lib (map (np_dot ?lib [1, 0]) ?embs))"
    unfolding sims_three by (simp add: lib_fixed_def)
  have ti: "top_indices ?lib [0, 1, 1] 2 = [2, 1, 0]"
    by (simp add: top_indices_def py_slice_from_def lib_fixed_def)
  define v where "v = mmr_value ?lib [1, 0] ?embs (round_double (3 / 10))"
  have v1: "v [2] (Suc 0) = 6305039478318694 / 9007199254740992"
    and v0: "v [2] 0 = 5404319552844595 / 18014398509481984"
    unfolding v_def by (rule values_three)+
  have fm: "first_maximal (v [2]) [Suc 0, 0] = Suc 0"
    by (simp add: first_maximal_def v1 v0)
  have "mmr_rerank v 2 [2, 1, 0] = [2, 1]"
    by (simp add: mmr_rerank_def fm)
  then have rr: "mmr_rerank (mmr_value ?lib [1, 0] ?embs (round_double (3 / 10))) 2 [2, 1, 0]
                   = [2, 1]"
    unfolding v_def .
  show ?thesis
    using ok retrieve_chunks_refines_spec [OF h1 h2 h3 h4 h5 h6 h7]
    unfolding sims_three ti rr by simp
qed

text \<open>
  The claim read in exact arithmetic, and without a bound on \<open>top_k\<close>, fails twice. In the
  session of \<open>store_round\<close> with \<open>top_k = 2\<close> the chunks \<^verbatim>\<open>b.\<close> and \<^verbatim>\<open>c.\<close> tie at \<open>3 / 10\<close>
  in exact arithmetic, where the earlier rank \<^verbatim>\<open>b.\<close> would win; in binary64 the value of
  \<^verbatim>\<open>b.\<close> is \<^verbatim>\<open>0.29999999999999993\<close>, below the \<^verbatim>\<open>0.3\<close> of \<^verbatim>\<open>c.\<close>, and the code returns
  \<^verbatim>\<open>a.\<close> and \<^verbatim>\<open>c.\<close>. For \<open>top_k = 0\<close> the slice \<^verbatim>\<open>[-num_candidates:]\<close> is \<^verbatim>\<open>[-0:]\<close>, the
  whole argsort: the shortlist of a one-chunk session has one member, not
  \<open>min (2 * 0) 1 = 0\<close>, and that chunk is returned.
\<close>

theorem retrieve_chunks_claim_counterexample:
  "retrieve_chunks lib_round store_round (ustr ''q'') (Some (ustr ''s1'')) 2
     = Inr [ustr ''a.'', ustr ''c.''] \<and>
   top_indices lib_round [1, 3 / 8, 0] 2 = [0, 1, 2] \<and>
   map (\<lambda>i. [ustr ''a.'', ustr ''b.'', ustr ''c.''] ! i)
     (mmr_rerank
        (mmr_exact lib_round [1, 0, 0] [[1, 1, 0], [3 / 8, 1 / 2, 0], [0, 0, 1]] (3 / 10)) 2
        [0, 1, 2])
     = [ustr ''a.'', ustr ''b.''] \<and>
   top_indices (lib_fixed [0]) [1] 0 = [0] \<and>
   \<not> is_shortlist [1] 0 (top_indices (lib_fixed [0]) [1] 0) \<and>
   retrieve_chunks (lib_fixed [0]) store_one (ustr ''q'') (Some (ustr ''s1'')) 0
     = Inr [ustr ''a.'']"
proof -
  let ?embs = "[[1, 1, 0], [3 / 8, 1 / 2, 0], [0, 0, 1 :: real]]"
  let ?docs = "[ustr ''a.'', ustr ''b.'', ustr ''c.'']"
  have h1: "map_of (session_embeddings store_round) (session_key (Some (ustr ''s1''))) = Some ?embs"
    by (simp add: store_round_def session_key_def)
  have h2: "map_of (session_documents store_round) (session_key (Some (ustr ''s1''))) = Some ?docs"
    by (simp add: store_round_def session_key_def)
  have h3: "length ?docs = length ?embs" by simp
  have h4: "?embs \<noteq> []" by simp
  have h5: "(1::int) \<le> 2" by simp
  have h6: "encode lib_round (ustr ''q'') = Some [1, 0, 0]" by (simp add: lib_round_def)
  have h7: "argsort_ok (map (np_dot lib_round [1, 0, 0]) ?embs)
              (np_argsort lib_round (map (np_dot lib_round [1, 0, 0]) ?embs))"
    unfolding sims_round by (simp add: argsort_ok_def lib_round_def lib_fixed_def)
  have ti: "top_indices lib_round [1, 3 / 8, 0] 2 = [0, 1, 2]"
    by (simp add: top_indices_def py_slice_from_def lib_round_def lib_fixed_def)
  define v where "v = mmr_value lib_round [1, 0, 0] ?embs (round_double (3 / 10))"
  have v1: "v [0] (Suc 0) = 5404319552844594 / 18014398509481984"
    and v2: "v [0] 2 = 5404319552844595 / 18014398509481984"
    unfolding v_def by (rule values_round)+
  have "first_maximal (v [0]) [Suc 0, 2] = 2"
    by (simp add: first_maximal_def v1 v2)
  then have "mmr_rerank v 2 [0, 1, 2] = [0, 2]"
    by (simp add: mmr_rerank_def)
  then have rr: "mmr_rerank (mmr_value lib_round [1, 0, 0] ?embs (round_double (3 / 10))) 2
                   [0, 1, 2] = [0, 2]"
    unfolding v_def .
  have code: "retrieve_chunks lib_round store_round (ustr ''q'') (Some (ustr ''s1'')) 2
                = Inr [ustr ''a.'', ustr ''c.'']"
    using retrieve_chunks_mmr [OF h1 h2 h3 h4 h5 h6 h7]
    unfolding sims_round ti rr by simp
  define x where "x = mmr_exact lib_round [1, 0, 0] ?embs (3 / 10)"
  have x1: "x [0] (Suc 0) = 3 / 10" and x2: "x [0] 2 = 3 / 10"
    unfolding x_def by (rule exact_round)+
  have "first_maximal (x [0]) [Suc 0, 2] = Suc 0"
    by (simp add: first_maximal_def x1 x2)
  then have "mmr_rerank x 2 [0, 1, 2] = [0, 1]"
    by (simp add: mmr_rerank_def)
  then have exact: "map (\<lambda>i. ?docs ! i) (mmr_rerank (mmr_exact lib_round [1, 0, 0] ?embs (3 / 10)) 2
                      [0, 1, 2]) = [ustr ''a.'', ustr ''b.'']"
    unfolding x_def by simp
  have ti0: "top_indices (lib_fixed [0]) [1] 0 = [0]"
    by (simp add: top_indices_def py_slice_from_def lib_fixed_def)
  have ns: "\<not> is_shortlist [1] 0 [0]" by (simp add: is_shortlist_def)
  have r0: "retrieve_chunks (lib_fixed [0]) store_one (ustr ''q'') (Some (ustr ''s1'')) 0
              = Inr [ustr ''a.'']"
    by (simp add: retrieve_chunks_def session_key_def store_one_def selected_indices_def
        rerank_with_diversity_def index_all_def lib_fixed_def dot_list_def top_indices_def
        py_slice_from_def round_double_0 round_double_1)
  from code ti exact ti0 ns r0 show ?thesis by simp
qed

text \<open>
  C10. For a session holding \<open>N \<ge> 1\<close> chunks and every \<open>top_k \<ge> 1\<close>, with the embedder
  returning a vector for the query and \<^verbatim>\<open>np.argsort\<close> keeping its promise on the scores,
  \<open>retrieve_chunks\<close> returns the texts at \<open>min top_k N\<close> pairwise distinct stored chunk
  indices.
\<close>

theorem retrieve_chunks_count_distinct:
  assumes "map_of (session_embeddings st) (session_key session_id) = Some embeddings"
    and "map_of (session_documents st) (session_key session_id) = Some documents"
    and "length documents = length embeddings"
    and "embeddings \<noteq> []"
    and "1 \<le> top_k"
    and "encode lib query = Some q"
    and "argsort_ok (map (np_dot lib q) embeddings)
           (np_argsort lib (map (np_dot lib q) embeddings))"
  shows "\<exists>idxs. retrieve_chunks lib st query session_id top_k
                   = Inr (map (\<lambda>i. documents ! i) idxs) \<and>
                distinct idxs \<and> (\<forall>i\<in>set idxs. i < length documents) \<and>
                int (length idxs) = min top_k (int (length documents))"
proof -
  let ?sims = "map (np_dot lib q) embeddings"
  let ?r = "mmr_rerank (mmr_value lib q embeddings (round_double (3 / 10))) top_k
              (top_indices lib ?sims top_k)"
  have sl: "is_shortlist ?sims top_k (top_indices lib ?sims top_k)"
    using top_indices_shortlist [OF assms(7) assms(5)] .
  have "?sims \<noteq> []" using assms(4) by simp
  from mmr_rerank_props [OF sl assms(5) this]
  have "distinct ?r \<and> (\<forall>i\<in>set ?r. i < length documents) \<and>
        int (length ?r) = min top_k (int (length documents))"
    using assms(3) by simp
  with retrieve_chunks_mmr [OF assms] show ?thesis by blast
qed

theorem retrieve_chunks_count_distinct_witness:
  "\<exists>idxs. retrieve_chunks (lib_fixed [0, 1, 2]) store_three (ustr ''q'') (Some (ustr ''s1'')) 5
             = Inr (map (\<lambda>i. [ustr ''a.'', ustr ''b.'', ustr ''c.''] ! i) idxs) \<and>
           distinct idxs \<and> (\<forall>i\<in>set idxs. i < 3) \<and> length idxs = 3"
proof -
  let ?lib = "lib_fixed [0, 1, 2]"
  let ?embs = "[[0, 1], [1, 0], [1, 0 :: real]]"
  let ?docs = "[ustr ''a.'', ustr ''b.'', ustr ''c.'']"
  have h1: "map_of (session_embeddings store_three) (session_key (Some (ustr ''s1''))) = Some ?embs"
    by (simp add: store_three_def session_key_def)
  have h2: "map_of (session_documents store_three) (session_key (Some (ustr ''s1''))) = Some ?docs"
    by (simp add: store_three_def session_key_def)
  have h3: "length ?docs = length ?embs" by simp
  have h4: "?embs \<noteq> []" by simp
  have h5: "(1::int) \<le> 5" by simp
  have h6: "encode ?lib (ustr ''q'') = Some [1, 0]" by (simp add: lib_fixed_def)
  have h7: "argsort_ok (map (np_dot ?lib [1, 0]) ?embs)
              (np_argsort ?lib (map (np_dot ?lib [1, 0]) ?embs))"
    unfolding sims_three by (simp add: argsort_ok_def lib_fixed_def)
  show ?thesis
    using retrieve_chunks_count_distinct [OF h1 h2 h3 h4 h5 h6 h7]
    by (simp add: numeral_3_eq_3)
qed


section \<open>Retrieval: repeated calls\<close>

lemma combined_score_same:
  assumes "np_dot lib1 = np_dot lib2" and "np_add lib1 = np_add lib2"
    and "np_sub lib1 = np_sub lib2" and "np_mul lib1 = np_mul lib2"
  shows "combined_score lib1 = combined_score lib2"
  by (intro ext) (simp add: combined_score_def assms)

lemma rerank_with_diversity_same:
  assumes "np_dot lib1 = np_dot lib2" and "np_add lib1 = np_add lib2"
    and "np_sub lib1 = np_sub lib2" and "np_mul lib1 = np_mul lib2"
  shows "rerank_with_diversity lib1 = rerank_with_diversity lib2"
  by (intro ext) (simp only: rerank_with_diversity_def combined_score_same [OF assms])

lemma selected_indices_same:
  assumes "np_dot lib1 = np_dot lib2" and "np_argsort lib1 = np_argsort lib2"
    and "np_add lib1 = np_add lib2" and "np_sub lib1 = np_sub lib2"
    and "np_mul lib1 = np_mul lib2"
  shows "selected_indices lib1 = selected_indices lib2"
  by (intro ext)
     (simp only: selected_indices_def top_indices_def assms(1,2)
        rerank_with_diversity_same [OF assms(1,3,4,5)])

text \<open>
  C9. Two calls of \<open>retrieve_chunks\<close> with the same query, session id and \<open>top_k\<close> return
  the same sequence, whatever else differs between them. The library at the second call
  (\<open>lib2\<close>) need agree with the library at the first (\<open>lib1\<close>) only in what the claim
  assumes: the embedder returns the same for this query, and numpy's dot product,
  argsort and scalar arithmetic are functions of their arguments; the stores need agree
  only on the texts and vectors of the session asked for. The same holds of
  \<open>rerank_with_diversity\<close> for every diversity weight. A call leaves the store as it found
  it, so a second call that follows the first on the module state returns what the first
  returned.
\<close>

theorem retrieve_chunks_deterministic:
  assumes "encode lib1 query = encode lib2 query"
    and "np_dot lib1 = np_dot lib2" and "np_argsort lib1 = np_argsort lib2"
    and "np_add lib1 = np_add lib2" and "np_sub lib1 = np_sub lib2"
    and "np_mul lib1 = np_mul lib2"
    and "map_of (session_embeddings st1) (session_key session_id)
           = map_of (session_embeddings st2) (session_key session_id)"
    and "map_of (session_documents st1) (session_key session_id)
           = map_of (session_documents st2) (session_key session_id)"
  shows "retrieve_chunks lib1 st1 query session_id top_k
           = retrieve_chunks lib2 st2 query session_id top_k \<and>
         rerank_with_diversity lib1 candidate_indices similarities embeddings top_k
             diversity_weight
           = rerank_with_diversity lib2 candidate_indices similarities embeddings top_k
               diversity_weight \<and>
         snd (retrieve_chunks_call lib1 query session_id top_k st1) = st1 \<and>
         fst (retrieve_chunks_call lib2 query session_id top_k
                (snd (retrieve_chunks_call lib1 query session_id top_k st1)))
           = fst (retrieve_chunks_call lib1 query session_id top_k st1)"
proof -
  have sel: "selected_indices lib1 = selected_indices lib2"
    using assms(2-6) by (rule selected_indices_same)
  have rr: "rerank_with_diversity lib1 = rerank_with_diversity lib2"
    using assms(2,4,5,6) by (rule rerank_with_diversity_same)
  have same: "retrieve_chunks lib1 s query session_id top_k
                = retrieve_chunks lib2 s' query session_id top_k"
    if "map_of (session_embeddings s) (session_key session_id)
          = map_of (session_embeddings s') (session_key session_id)"
      and "map_of (session_documents s) (session_key session_id)
             = map_of (session_documents s') (session_key session_id)"
    for s s' :: "'a store"
    unfolding retrieve_chunks_def Let_def that assms(1) sel by (rule refl)
  have a: "retrieve_chunks lib1 st1 query session_id top_k
             = retrieve_chunks lib2 st2 query session_id top_k"
    using assms(7,8) by (rule same)
  have b: "retrieve_chunks lib1 st1 query session_id top_k
             = retrieve_chunks lib2 st1 query session_id top_k"
    by (rule same) (rule refl)+
  show ?thesis using a b rr by (simp add: retrieve_chunks_call_def)
qed

theorem retrieve_chunks_deterministic_witness:
  "retrieve_chunks (lib_fixed [0, 1, 2]) store_three (ustr ''q'') (Some (ustr ''s1'')) 2
     = retrieve_chunks
         ((lib_fixed [0, 1, 2])\<lparr>encode := (\<lambda>t. if t = ustr ''q'' then Some [1, 0] else None),
                                pickle_loads := (\<lambda>bytes. Some [])\<rparr>)
         (store_three\<lparr>session_metadata := []\<rparr>) (ustr ''q'') (Some (ustr ''s1'')) 2"
proof -
  let ?lib1 = "lib_fixed [0, 1, 2]"
  let ?lib2 = "(lib_fixed [0, 1, 2])\<lparr>encode := (\<lambda>t. if t = ustr ''q'' then Some [1, 0] else None),
                 pickle_loads := (\<lambda>bytes. Some [])\<rparr>"
  have h1: "encode ?lib1 (ustr ''q'') = encode ?lib2 (ustr ''q'')" by (simp add: lib_fixed_def)
  have h2: "np_dot ?lib1 = np_dot ?lib2" by simp
  have h3: "np_argsort ?lib1 = np_argsort ?lib2" by simp
  have h4: "np_add ?lib1 = np_add ?lib2" by simp
  have h5: "np_sub ?lib1 = np_sub ?lib2" by simp
  have h6: "np_mul ?lib1 = np_mul ?lib2" by simp
  have h7: "map_of (session_embeddings store_three) (session_key (Some (ustr ''s1'')))
              = map_of (session_embeddings (store_three\<lparr>session_metadata := []\<rparr>))
                  (session_key (Some (ustr ''s1'')))" by simp
  have h8: "map_of (session_documents store_three) (session_key (Some (ustr ''s1'')))
              = map_of (session_documents (store_three\<lparr>session_metadata := []\<rparr>))
                  (session_key (Some (ustr ''s1'')))" by simp
  show ?thesis
    using retrieve_chunks_deterministic [OF h1 h2 h3 h4 h5 h6 h7 h8] by blast
qed



section \<open>Serialization\<close>

lemma length_le_bytes: "length (le_bytes n x) = n"
  by (induction n arbitrary: x) simp_all

lemma le_value_le_bytes: "x < 256 ^ n \<Longrightarrow> le_value (le_bytes n x) = x"
proof (induction n arbitrary: x)
  case 0
  then show ?case by simp
next
  case (Suc n)
  then have "x div 256 < 256 ^ n" by (simp add: less_mult_imp_div_less mult.commute)
  then have "le_value (le_bytes n (x div 256)) = x div 256" by (rule Suc.IH)
  then show ?case by simp
qed

lemma drop_prefix: "length p = n \<Longrightarrow> drop n (p @ r) = r"
  by auto

lemma nth_prefix: "length p = n \<Longrightarrow> (p @ r) ! (n + k) = r ! k"
  by (auto simp: nth_append)

lemma npy_roundtrip:
  assumes "ndarray_ok a"
  shows "npy_loads (npy_dumps a) = Some a"
proof -
  let ?s = "le_bytes 8 (nd_shape a)"
  let ?l = "le_bytes 8 (length (nd_data a))"
  let ?bs = "npy_dumps a"
  from assms have len: "length (nd_data a) = nd_itemsize a * nd_shape a"
    and s: "nd_shape a < 256 ^ 8" and l: "length (nd_data a) < 256 ^ 8"
    by (simp_all add: ndarray_ok_def)
  have ls: "length ?s = 8" and ll: "length ?l = 8" by (rule length_le_bytes)+
  have bs: "?bs = ([128, 4] @ ?s @ [nd_itemsize a, 142] @ ?l) @ nd_data a @ [46]"
    by (simp add: npy_dumps_def)
  have pre: "length ([128, 4] @ ?s @ [nd_itemsize a, 142] @ ?l) = 20"
    using ls ll by simp
  have total: "length ?bs = 21 + length (nd_data a)" unfolding bs using pre by simp
  have d2: "take 8 (drop 2 ?bs) = ?s" unfolding npy_dumps_def using ls by simp
  have d12: "take 8 (drop 12 ?bs) = ?l" unfolding npy_dumps_def using ls ll by simp
  have d20: "drop 20 ?bs = nd_data a @ [46]" unfolding bs using pre by (rule drop_prefix)
  have i10: "?bs ! 10 = nd_itemsize a" unfolding npy_dumps_def using ls by (simp add: nth_append)
  have i11: "?bs ! 11 = 142" unfolding npy_dumps_def using ls by (simp add: nth_append)
  have t2: "take 2 ?bs = [128, 4]" unfolding npy_dumps_def by simp
  have "?bs ! (20 + length (nd_data a)) = (nd_data a @ [46]) ! length (nd_data a)"
    unfolding bs using pre by (rule nth_prefix)
  then have last: "?bs ! (20 + length (nd_data a)) = 46" by simp
  have vs: "le_value ?s = nd_shape a" using s by (rule le_value_le_bytes)
  have vl: "le_value ?l = length (nd_data a)" using l by (rule le_value_le_bytes)
  show ?thesis
    unfolding npy_loads_def Let_def d2 d12 d20 i10 i11 t2 vs vl
    using total last len by simp
qed

text \<open>
  C8, against the model of the pickle functions. For every array \<open>v\<close> as numpy holds it,
  deserializing the serialized \<open>v\<close> returns \<open>v\<close>: the same shape, the same item size and
  the same bytes, hence every component.
\<close>

theorem serialize_embedding_roundtrip:
  assumes "pickle_dumps lib = npy_dumps" and "pickle_loads lib = npy_loads"
    and "ndarray_ok v"
  shows "deserialize_embedding lib (serialize_embedding lib v) = Some v"
  using npy_roundtrip [OF assms(3)]
  by (simp add: deserialize_embedding_def serialize_embedding_def assms(1,2))

theorem serialize_embedding_roundtrip_witness:
  "ndarray_ok array_two \<and>
   deserialize_embedding lib_pickle (serialize_embedding lib_pickle array_two) = Some array_two \<and>
   deserialize_embedding lib_pickle [0] = None"
proof -
  have h1: "pickle_dumps lib_pickle = npy_dumps" by (simp add: lib_pickle_def)
  have h2: "pickle_loads lib_pickle = npy_loads" by (simp add: lib_pickle_def)
  have h3: "ndarray_ok array_two" by (simp add: ndarray_ok_def array_two_def)
  have c: "deserialize_embedding lib_pickle [0] = None"
    by (simp add: deserialize_embedding_def lib_pickle_def npy_loads_def)
  show ?thesis
    using h3 c serialize_embedding_roundtrip [OF h1 h2 h3] by simp
qed

end
